theory Spec2Isabelle
  imports Main "HOL-Library.Word" "HOL-Library.Char_ord" "HOL-Library.List_Lexorder"
begin

unbundle bit_operations_syntax

chapter \<open>The profile distributor (pkg/distributor/distributor.go)\<close>

section \<open>Machine types\<close>

text \<open>
  Go's \<open>uint32\<close> and \<open>int32\<close> are 32-bit words; \<open>int\<close>, \<open>int64\<close> and \<open>uint64\<close> are
  64-bit words (the distributor runs on 64-bit platforms, where \<open>int\<close> has 64 bits).
  Arithmetic wraps around; the signed reading of a word is \<open>sint\<close>. A conversion between
  two integer types of the same width keeps the bits, so it is the identity on words;
  \<open>int32(x)\<close> of an \<open>int\<close> is \<open>ucast\<close>. A Go \<open>string\<close> is a sequence of bytes: \<open>string\<close>,
  a list of 8-bit \<open>char\<close>s, compared bytewise and lexicographically by \<open><\<close> as in Go.
\<close>

type_synonym uint32 = "32 word"
type_synonym int32 = "32 word"
type_synonym go_int = "64 word"
type_synonym uint64 = "64 word"
type_synonym int64 = "64 word"

section \<open>Data model\<close>

text \<open>
  \<open>typesv1.LabelPair\<close> and \<open>phlaremodel.Labels\<close> (a slice of label pairs); the protobuf
  messages \<open>googlev1.Label\<close>, \<open>googlev1.Sample\<close> and \<open>googlev1.Profile\<close>, with the fields
  this file reads and writes (a sample's \<open>Value\<close> and \<open>Label\<close> fields are named
  \<open>Sample_Value\<close> and \<open>Sample_Label\<close> here); and \<open>distributormodel.ProfileSample\<close>,
  \<open>ProfileSeries\<close> and \<open>PushRequest\<close>. A pointer to a label pair, a sample or a profile
  is modelled by the value it points to.
\<close>

record LabelPair =
  Name :: string
  Value :: string

type_synonym Labels = "LabelPair list"

record Label =
  Key :: int64
  Str :: int64
  Num :: int64
  NumUnit :: int64

record Sample =
  LocationId :: "uint64 list"
  Sample_Value :: "int64 list"
  Sample_Label :: "Label list"

record Profile =
  StringTable :: "string list"
  Sample :: "Sample list"

record ProfileSample =
  Profile :: Profile
  RawProfile :: string
  ID :: string

record ProfileSeries =
  Labels :: Labels
  Samples :: "ProfileSample list"

record PushRequest =
  Series :: "ProfileSeries list"
  RawProfileSize :: go_int
  RawProfileType :: string

text \<open>
  Errors. \<open>connect.NewError(code, err)\<close> is \<open>ConnectError code\<close> (the message is not
  modelled); an error of a callee that is returned as it is (the ring, the serialiser, an
  ingester, the caller's context) is \<open>OtherError\<close>; a run-time panic (an index out of
  range) is \<open>Panic\<close>.
\<close>

datatype Code = CodeInvalidArgument | CodeUnauthenticated | CodeResourceExhausted

datatype error = ConnectError Code | OtherError string | Panic

text \<open>\<open>ring.InstanceDesc\<close> and \<open>ring.ReplicationSet\<close> of dskit, with the fields read here.\<close>

record InstanceDesc =
  Addr :: string

record ReplicationSet =
  Instances :: "InstanceDesc list"
  MaxErrors :: go_int

text \<open>
  \<open>profileTracker\<close> and \<open>pushTracker\<close>. The two channels of a \<open>pushTracker\<close> have
  capacity 1; \<open>done_chan\<close> is the number of values buffered in \<open>done\<close>, \<open>err_chan\<close> the
  errors buffered in \<open>err\<close>.
\<close>

record profileTracker =
  profile :: ProfileSeries
  minSuccess :: go_int
  maxFailures :: go_int
  succeeded :: int32
  failed :: int32

record pushTracker =
  samplesPending :: int32
  samplesFailed :: int32
  done_chan :: nat
  err_chan :: "error list"

section \<open>Tokens: \<open>TokenFor\<close>\<close>

text \<open>
  \<open>TokenFor\<close> uses \<open>hash/fnv\<close> of Go's standard library:
  \<^verbatim>\<open>h := fnv.New32(); h.Write([]byte(tenantID)); h.Write([]byte(labels)); return h.Sum32()\<close>.
  \<open>fnv.New32\<close> returns a \<open>sum32\<close> holding \<open>offset32\<close>; its \<open>Write\<close> runs, for every byte
  \<open>c\<close> of the data in order, \<^verbatim>\<open>hash *= prime32; hash ^= sum32(c)\<close>; \<open>Sum32\<close> returns the
  state. (The other 32-bit constructor of the package, \<open>fnv.New32a\<close>, returns a \<open>sum32a\<close>,
  whose \<open>Write\<close> runs \<^verbatim>\<open>hash ^= sum32a(c); hash *= prime32\<close>.)
\<close>

definition offset32 :: uint32 where
  "offset32 = 2166136261"

definition prime32 :: uint32 where
  "prime32 = 16777619"

definition New32 :: uint32 where
  "New32 = offset32"

fun sum32_Write :: "uint32 \<Rightarrow> string \<Rightarrow> uint32" where
  "sum32_Write hash [] = hash"
| "sum32_Write hash (c # data) = sum32_Write ((hash * prime32) XOR of_char c) data"

definition Sum32 :: "uint32 \<Rightarrow> uint32" where
  "Sum32 hash = hash"

definition TokenFor :: "string \<Rightarrow> string \<Rightarrow> uint32" where
  "TokenFor tenantID labels = Sum32 (sum32_Write (sum32_Write New32 tenantID) labels)"

text \<open>
  The two hashes of the FNV family the specification can mean, each written as one fold
  over the bytes of its input: FNV-1 multiplies, then xors the byte in; FNV-1a xors the
  byte in, then multiplies. The specification names FNV-1a.
\<close>

definition FNV1_32 :: "string \<Rightarrow> uint32" where
  "FNV1_32 bs = foldl (\<lambda>h c. (h * 16777619) XOR of_char c) 2166136261 bs"

definition FNV1a32 :: "string \<Rightarrow> uint32" where
  "FNV1a32 bs = foldl (\<lambda>h c. (h XOR of_char c) * 16777619) 2166136261 bs"

section \<open>Labels (pkg/model)\<close>

text \<open>
  \<open>ProfileName\<close> is a constant of distributor.go. The label names
  \<open>phlaremodel.LabelNameServiceName\<close> and \<open>phlaremodel.LabelNameSessionID\<close> are constants
  of pkg/model: the specification names the labels \<open>service_name\<close> and \<open>session_id\<close>.
\<close>

definition ProfileName :: string where
  "ProfileName = ''__name__''"

definition LabelNameServiceName :: string where
  "LabelNameServiceName = ''service_name''"

definition LabelNameSessionID :: string where
  "LabelNameSessionID = ''session_id''"

text \<open>
  Modelled from the spec: the methods of \<open>phlaremodel.Labels\<close> that distributor.go calls
  (pkg/model is not among the sources). \<open>Get\<close> returns the value of the first label of the
  given name and the empty string when there is none (the code tests its result against
  \<open>""\<close> to find a label "missing"); \<open>GetLabel\<close> returns a pointer to that label, here
  its position in the list, and whether there is one; \<open>Delete\<close> strips the labels of the
  given name; \<open>Clone\<close> copies the label pairs; \<open>Unique\<close> de-duplicates by name and keeps
  the first occurrence; \<open>sort.Sort\<close> and \<open>sort.Stable\<close> order the labels by name, ascending
  (\<open>sort.Sort\<close> is not stable in Go: where two labels share a name their order after it is
  not determined by the name order; nothing below depends on that order).
\<close>

fun Labels_Get :: "Labels \<Rightarrow> string \<Rightarrow> string" where
  "Labels_Get [] name = ''''"
| "Labels_Get (l # ls) name = (if Name l = name then Value l else Labels_Get ls name)"

fun Labels_GetLabel :: "Labels \<Rightarrow> string \<Rightarrow> nat option" where
  "Labels_GetLabel [] name = None"
| "Labels_GetLabel (l # ls) name =
     (if Name l = name then Some 0 else map_option Suc (Labels_GetLabel ls name))"

definition Labels_Delete :: "Labels \<Rightarrow> string \<Rightarrow> Labels" where
  "Labels_Delete ls name = filter (\<lambda>l. Name l \<noteq> name) ls"

definition Labels_Clone :: "Labels \<Rightarrow> Labels" where
  "Labels_Clone ls = map (\<lambda>l. \<lparr>Name = Name l, Value = Value l\<rparr>) ls"

fun Labels_Unique :: "Labels \<Rightarrow> Labels" where
  "Labels_Unique [] = []"
| "Labels_Unique (l # ls) = l # Labels_Unique (filter (\<lambda>m. Name m \<noteq> Name l) ls)"

definition sort_Sort :: "Labels \<Rightarrow> Labels" where
  "sort_Sort ls = sort_key Name ls"

definition sort_Stable :: "Labels \<Rightarrow> Labels" where
  "sort_Stable ls = sort_key Name ls"

section \<open>Session ids: \<open>limitMaxSessionsPerSeries\<close>\<close>

text \<open>
  Go's \<open>%\<close> on signed integers truncates towards zero: the remainder has the sign of the
  dividend. \<open>int_rem\<close> is \<open>%\<close> on \<open>int\<close>; the divisor is not zero where it is used.
\<close>

definition go_rem :: "int \<Rightarrow> int \<Rightarrow> int" where
  "go_rem a b = sgn a * (\<bar>a\<bar> mod \<bar>b\<bar>)"

definition int_rem :: "go_int \<Rightarrow> go_int \<Rightarrow> go_int" where
  "int_rem a b = word_of_int (go_rem (sint a) (sint b))"

text \<open>
  \<open>limitMaxSessionsPerSeries\<close>. \<open>phlaremodel.ParseSessionID\<close> (a \<open>uint64\<close> or an error) and
  \<open>SessionID.String\<close> are functions of pkg/model and are parameters here, as is
  \<open>d.limits.MaxSessionsPerSeries(tenantID)\<close>. The code converts the parsed \<open>SessionID\<close>
  (a \<open>uint64\<close>) to \<open>int\<close>, takes \<open>%\<close>, and converts the result back:
  \<^verbatim>\<open>sessionIDLabel.Value = phlaremodel.SessionID(int(sessionID) % maxSessionsPerSeries).String()\<close>.
  The assignment goes through the pointer \<open>GetLabel\<close> returned, so it updates the label in
  the list.
\<close>

definition limitMaxSessionsPerSeries ::
  "(string \<Rightarrow> uint64 option) \<Rightarrow> (uint64 \<Rightarrow> string) \<Rightarrow> go_int \<Rightarrow> Labels \<Rightarrow> Labels" where
  "limitMaxSessionsPerSeries parse render maxSessionsPerSeries labels =
     (if maxSessionsPerSeries = 0 then Labels_Delete labels LabelNameSessionID
      else case Labels_GetLabel labels LabelNameSessionID of
        None \<Rightarrow> labels
      | Some i \<Rightarrow>
          (case parse (Value (labels ! i)) of
             None \<Rightarrow> Labels_Delete labels LabelNameSessionID
           | Some sessionID \<Rightarrow>
               labels[i := (labels ! i)\<lparr>Value := render (int_rem sessionID maxSessionsPerSeries)\<rparr>]))"

text \<open>
  Modelled from the spec: the textual form of a session id, for the examples below. The
  specification says that a \<open>session_id\<close> is a hexadecimal integer and that the reduced id
  is rendered in the same textual form: \<open>ParseSessionID\<close> reads up to 16 hexadecimal
  digits, most significant first, and \<open>SessionID_String\<close> writes 16 of them.
\<close>

definition hexDigit :: "char \<Rightarrow> uint64 option" where
  "hexDigit c = (let n = of_char c :: nat in
     if 48 \<le> n \<and> n \<le> 57 then Some (of_char c - 48)
     else if 97 \<le> n \<and> n \<le> 102 then Some (of_char c - 87)
     else if 65 \<le> n \<and> n \<le> 70 then Some (of_char c - 55)
     else None)"

fun hexValue :: "uint64 \<Rightarrow> string \<Rightarrow> uint64 option" where
  "hexValue acc [] = Some acc"
| "hexValue acc (c # cs) =
     (case hexDigit c of None \<Rightarrow> None | Some d \<Rightarrow> hexValue (16 * acc + d) cs)"

definition ParseSessionID :: "string \<Rightarrow> uint64 option" where
  "ParseSessionID s = (if s = [] \<or> 16 < length s then None else hexValue 0 s)"

definition hexChar :: "uint64 \<Rightarrow> char" where
  "hexChar d = ''0123456789abcdef'' ! unat (d AND 15)"

definition SessionID_String :: "uint64 \<Rightarrow> string" where
  "SessionID_String w = map (\<lambda>i. hexChar (drop_bit (60 - 4 * i) w)) [0..<16]"

section \<open>Label normalisation in \<open>PushParsed\<close>\<close>

text \<open>
  The body of the first loop of \<open>PushParsed\<close>, for one series:
  \<^verbatim>\<open>serviceName := phlaremodel.Labels(series.Labels).Get(phlaremodel.LabelNameServiceName)\<close>,
  \<^verbatim>\<open>if serviceName == "" { series.Labels = append(series.Labels, &typesv1.LabelPair{...}) }\<close>,
  \<^verbatim>\<open>sort.Sort(phlaremodel.Labels(series.Labels))\<close>.
\<close>

definition PushParsed_normalize :: "ProfileSeries \<Rightarrow> ProfileSeries" where
  "PushParsed_normalize series =
     (let serviceName = Labels_Get (Labels series) LabelNameServiceName;
          labels = (if serviceName = ''''
                    then Labels series @ [\<lparr>Name = LabelNameServiceName, Value = ''unspecified''\<rparr>]
                    else Labels series)
      in series\<lparr>Labels := sort_Sort labels\<rparr>)"

section \<open>Sample splitting: \<open>mergeSeriesAndSampleLabels\<close> and \<open>extractSampleSeries\<close>\<close>

text \<open>
  \<open>p.StringTable[i]\<close> with an \<open>int64\<close> index panics when the index is negative or not
  below the length of the table: \<open>stringAt\<close> is \<open>None\<close> there.
\<close>

definition stringAt :: "string list \<Rightarrow> int64 \<Rightarrow> string option" where
  "stringAt tbl i =
     (if 0 \<le> sint i \<and> sint i < int (length tbl) then Some (tbl ! nat (sint i)) else None)"

text \<open>
  The loop of \<open>mergeSeriesAndSampleLabels\<close> appends to \<open>m\<close>, for every sample label of
  the group, the pair of its key and its string value, both looked up in the string table
  of the profile; \<open>mergeSeriesAndSampleLabels\<close> starts it from a clone of the series
  labels, sorts the result with \<open>sort.Stable\<close> and returns \<open>m.Unique()\<close>. \<open>None\<close> is the
  panic of an index out of range.
\<close>

fun appendSampleLabels :: "Profile \<Rightarrow> Labels \<Rightarrow> Label list \<Rightarrow> Labels option" where
  "appendSampleLabels p m [] = Some m"
| "appendSampleLabels p m (l # pl) =
     (case stringAt (StringTable p) (Key l) of
        None \<Rightarrow> None
      | Some name \<Rightarrow>
          (case stringAt (StringTable p) (Str l) of
             None \<Rightarrow> None
           | Some v \<Rightarrow> appendSampleLabels p (m @ [\<lparr>Name = name, Value = v\<rparr>]) pl))"

definition mergeSeriesAndSampleLabels :: "Profile \<Rightarrow> Labels \<Rightarrow> Label list \<Rightarrow> Labels option" where
  "mergeSeriesAndSampleLabels p sl pl =
     (case appendSampleLabels p (Labels_Clone sl) pl of
        None \<Rightarrow> None
      | Some m \<Rightarrow> Some (Labels_Unique (sort_Stable m)))"

text \<open>
  The functions of pkg/pprof that \<open>extractSampleSeries\<close> calls are parameters: \<open>Normalize\<close>
  and \<open>RenameLabel\<close> (both change the profile in place; here they return the changed
  profile), \<open>GroupSamplesWithoutLabels\<close> (its result has the type \<open>pprof.SampleGroup\<close>,
  whose fields \<open>Labels\<close> and \<open>Samples\<close> are \<open>Group_Labels\<close> and \<open>Group_Samples\<close> here), and
  \<open>ExportSamples\<close> of the exporter created for a source profile, which fills a new profile
  from the samples it is given. The label names \<open>pprof.ProfileIDLabelName\<close> and
  \<open>pprof.SpanIDLabelName\<close> are the names the specification gives them.
\<close>

definition ProfileIDLabelName :: string where
  "ProfileIDLabelName = ''profile_id''"

definition SpanIDLabelName :: string where
  "SpanIDLabelName = ''span_id''"

record SampleGroup =
  Group_Labels :: "Label list"
  Group_Samples :: "Sample list"

record pprof =
  Normalize :: "Profile \<Rightarrow> Profile"
  RenameLabel :: "Profile \<Rightarrow> string \<Rightarrow> string \<Rightarrow> Profile"
  GroupSamplesWithoutLabels :: "Profile \<Rightarrow> string \<Rightarrow> SampleGroup list"
  ExportSamples :: "Profile \<Rightarrow> Sample list \<Rightarrow> Profile"

text \<open>
  \<open>exportSamples\<close> copies the samples of the group, clears the slots of the group in the
  source profile and exports the copy into a new profile. The groups are slices of the
  sample slice of the source profile; clearing one group leaves the samples of the other
  groups in place, and the source sample is not emitted once it is split, so the cleared
  slots are not modelled.
\<close>

definition exportSamples :: "pprof \<Rightarrow> Profile \<Rightarrow> Sample list \<Rightarrow> Profile" where
  "exportSamples lib src samples = (let samplesCopy = samples in ExportSamples lib src samplesCopy)"

text \<open>
  \<open>extractSampleSeries\<close>, loop by loop. \<open>prepare\<close> is what the loop over the samples of a
  series does to the profile of every sample first (\<open>Normalize\<close>, then \<open>RenameLabel\<close> from
  \<open>profile_id\<close> to \<open>span_id\<close>); \<open>noSampleLabels\<close> is the test
  \<^verbatim>\<open>len(groups) == 0 || (len(groups) == 1 && len(groups[0].Labels) == 0)\<close>;
  \<open>splitGroups\<close> is the loop over the groups, which appends one series and one new profile
  per group; \<open>extractSamples\<close> is the loop over the samples of one series, with the series
  \<open>s\<close> under construction as third component of its state; \<open>extractSeries\<close> is the loop
  over the series of the request. \<open>None\<close> is a panic of \<open>mergeSeriesAndSampleLabels\<close>.
\<close>

definition prepare :: "pprof \<Rightarrow> Profile \<Rightarrow> Profile" where
  "prepare lib p = RenameLabel lib (Normalize lib p) ProfileIDLabelName SpanIDLabelName"

definition noSampleLabels :: "SampleGroup list \<Rightarrow> bool" where
  "noSampleLabels groups \<longleftrightarrow>
     length groups = 0 \<or> (length groups = 1 \<and> length (Group_Labels (groups ! 0)) = 0)"

fun splitGroups ::
  "pprof \<Rightarrow> Profile \<Rightarrow> Labels \<Rightarrow> SampleGroup list \<Rightarrow> ProfileSeries list \<times> Profile list
     \<Rightarrow> (ProfileSeries list \<times> Profile list) option" where
  "splitGroups lib src labels [] acc = Some acc"
| "splitGroups lib src labels (grp # groups) (profileSeries, newProfiles) =
     (let profile = exportSamples lib src (Group_Samples grp)
      in case mergeSeriesAndSampleLabels src labels (Group_Labels grp) of
           None \<Rightarrow> None
         | Some ls \<Rightarrow>
             splitGroups lib src labels groups
               (profileSeries @
                  [\<lparr>Labels = ls, Samples = [\<lparr>Profile = profile, RawProfile = [], ID = []\<rparr>]\<rparr>],
                newProfiles @ [profile]))"

fun extractSamples ::
  "pprof \<Rightarrow> Labels \<Rightarrow> ProfileSample list
     \<Rightarrow> ProfileSeries list \<times> Profile list \<times> ProfileSample list
     \<Rightarrow> (ProfileSeries list \<times> Profile list \<times> ProfileSample list) option" where
  "extractSamples lib labels [] st = Some st"
| "extractSamples lib labels (raw # raws) (profileSeries, newProfiles, sSamples) =
     (let p = prepare lib (Profile raw);
          groups = GroupSamplesWithoutLabels lib p SpanIDLabelName
      in if noSampleLabels groups
         then extractSamples lib labels raws
                (profileSeries, newProfiles, sSamples @ [raw\<lparr>Profile := p\<rparr>])
         else case splitGroups lib p labels groups (profileSeries, newProfiles) of
                None \<Rightarrow> None
              | Some (profileSeries', newProfiles') \<Rightarrow>
                  extractSamples lib labels raws (profileSeries', newProfiles', sSamples))"

fun extractSeries ::
  "pprof \<Rightarrow> ProfileSeries list \<Rightarrow> ProfileSeries list \<times> Profile list
     \<Rightarrow> (ProfileSeries list \<times> Profile list) option" where
  "extractSeries lib [] acc = Some acc"
| "extractSeries lib (series # rest) (profileSeries, newProfiles) =
     (case extractSamples lib (Labels series) (Samples series) (profileSeries, newProfiles, []) of
        None \<Rightarrow> None
      | Some (profileSeries', newProfiles', sSamples) \<Rightarrow>
          extractSeries lib rest
            (if length sSamples > 0
             then profileSeries' @ [\<lparr>Labels = Labels series, Samples = sSamples\<rparr>]
             else profileSeries',
             newProfiles'))"

definition extractSampleSeries ::
  "pprof \<Rightarrow> PushRequest \<Rightarrow> (ProfileSeries list \<times> Profile list) option" where
  "extractSampleSeries lib req = extractSeries lib (Series req) ([], [])"

section \<open>Shard selection\<close>

text \<open>
  The loop of \<open>PushParsed\<close> over the tokens. \<open>profiles\<close> is the slice of trackers, one per
  series; a pointer to a tracker is its index in that slice, so the lists of
  \<open>samplesByIngester\<close> hold indices. \<open>samplesByIngester\<close> is a Go map from an address to
  its list of trackers, kept here as an association list in the order in which the
  addresses were first seen (Go iterates a map in no particular order, and the tasks
  started from it run concurrently). The argument \<open>get\<close> is
  \<open>d.ingestersRing.ShuffleShard(tenantID, size).Get(key, ring.Write, \<dots>)\<close> as a function of
  the key. A tracker index out of range would be a panic; there is one tracker per key.
\<close>

record shards =
  profiles :: "profileTracker list"
  samplesByIngester :: "(string \<times> nat list) list"
  ingesterDescs :: "string \<rightharpoonup> InstanceDesc"

fun appendTracker :: "string \<Rightarrow> nat \<Rightarrow> (string \<times> nat list) list \<Rightarrow> (string \<times> nat list) list" where
  "appendTracker addr i [] = [(addr, [i])]"
| "appendTracker addr i ((a, ps) # rest) =
     (if a = addr then (a, ps @ [i]) # rest else (a, ps) # appendTracker addr i rest)"

fun addInstances :: "nat \<Rightarrow> InstanceDesc list \<Rightarrow> shards \<Rightarrow> shards" where
  "addInstances i [] st = st"
| "addInstances i (ingester # rest) st =
     addInstances i rest
       (st\<lparr>samplesByIngester := appendTracker (Addr ingester) i (samplesByIngester st),
            ingesterDescs := (ingesterDescs st)(Addr ingester \<mapsto> ingester)\<rparr>)"

fun selectShards ::
  "(uint32 \<Rightarrow> error + ReplicationSet) \<Rightarrow> nat \<Rightarrow> uint32 list \<Rightarrow> shards \<Rightarrow> error + shards" where
  "selectShards get i [] st = Inr st"
| "selectShards get i (key # keys) st =
     (case get key of
        Inl err \<Rightarrow> Inl err
      | Inr replicationSet \<Rightarrow>
          if i < length (profiles st) then
            selectShards get (Suc i) keys
              (addInstances i (Instances replicationSet)
                 (st\<lparr>profiles := (profiles st)
                    [i := (profiles st ! i)
                       \<lparr>minSuccess := of_nat (length (Instances replicationSet))
                                       - MaxErrors replicationSet,
                        maxFailures := MaxErrors replicationSet\<rparr>]\<rparr>))
          else Inl Panic)"

section \<open>\<open>PushParsed\<close>\<close>

text \<open>
  What \<open>PushParsed\<close> reads from outside this file is a field of \<open>Distributor\<close>: the limits
  of the tenant, the session id functions of pkg/model, the sizes \<open>p.SizeBytes()\<close> and
  \<open>p.SizeVT()\<close> of a profile, \<open>validation.ValidateProfile\<close> and \<open>validation.ValidateLabels\<close>
  (with the limits and the time fixed; the result is the reason \<open>validation.ReasonOf\<close>
  gives for the error, \<open>None\<close> for no error), the rate limiter's \<open>AllowN\<close> at the time of
  the call, the functions of pkg/pprof, \<open>phlaremodel.LabelPairsString\<close>, the serialiser
  \<open>p.WriteTo\<close> (the bytes written, or an error), \<open>uuid.NewString\<close> (the id of the n-th
  call) and the ring (\<open>ShuffleShard\<close> followed by \<open>Get\<close>). The tenant id that
  \<open>tenant.ExtractTenantIDFromContext\<close> finds is a field of the context.
\<close>

type_synonym Reason = string

definition RateLimited :: Reason where
  "RateLimited = ''rate_limited''"

definition RawProfileTypePPROF :: string where
  "RawProfileTypePPROF = ''pprof''"

record Context =
  TenantID :: "string option"

record Distributor =
  MaxSessionsPerSeries :: "string \<Rightarrow> go_int"
  IngestionTenantShardSize :: "string \<Rightarrow> go_int"
  ParseSessionID_of :: "string \<Rightarrow> uint64 option"
  SessionID_String_of :: "uint64 \<Rightarrow> string"
  SizeBytes :: "Profile \<Rightarrow> go_int"
  SizeVT :: "Profile \<Rightarrow> go_int"
  ValidateProfile :: "string \<Rightarrow> Profile \<Rightarrow> go_int \<Rightarrow> Labels \<Rightarrow> Reason option"
  ValidateLabels :: "string \<Rightarrow> Labels \<Rightarrow> Reason option"
  AllowN :: "string \<Rightarrow> go_int \<Rightarrow> bool"
  pprof_lib :: pprof
  LabelPairsString :: "Labels \<Rightarrow> string"
  WriteTo :: "Profile \<Rightarrow> error + string"
  NewString :: "nat \<Rightarrow> string"
  ShuffleShard_Get :: "string \<Rightarrow> go_int \<Rightarrow> uint32 \<Rightarrow> error + ReplicationSet"

text \<open>
  The effects of a call that the claims are about. \<open>DiscardedProfiles\<close> and
  \<open>DiscardedBytes\<close> list the calls
  \<^verbatim>\<open>validation.DiscardedProfiles.WithLabelValues(reason, tenantID).Add(float64(n))\<close> (and the
  same for the bytes) as triples of the reason, the tenant and \<open>n\<close>, the \<open>int64\<close> that is
  converted: each call increases the counter of that reason and tenant by \<open>n\<close>.
  \<open>AllowN_calls\<close> lists the calls of the rate limiter with their results,
  \<open>newProfiles_allocated\<close> the profiles that sample splitting created, \<open>launched\<close> the
  goroutines started, each with the ingester and the trackers it was given. The usage
  statistics, the histograms of received sizes, logging, tracing and the closing of
  profiles are not modelled.
\<close>

record effects =
  DiscardedProfiles :: "(Reason \<times> string \<times> int64) list"
  DiscardedBytes :: "(Reason \<times> string \<times> int64) list"
  AllowN_calls :: "(string \<times> go_int \<times> bool) list"
  newProfiles_allocated :: "Profile list"
  launched :: "(InstanceDesc option \<times> nat list) list"

definition no_effects :: effects where
  "no_effects = \<lparr>DiscardedProfiles = [], DiscardedBytes = [], AllowN_calls = [],
                  newProfiles_allocated = [], launched = []\<rparr>"

text \<open>
  What \<open>PushParsed\<close> has built when it reaches its \<open>select\<close>: the trackers, the goroutines
  it started and the \<open>pushTracker\<close> they share.
\<close>

record dispatch =
  trackers :: "profileTracker list"
  tasks :: "(InstanceDesc option \<times> nat list) list"
  tracker :: pushTracker

text \<open>
  The second loop of \<open>PushParsed\<close>: the sizes of the label names and values of a series
  (\<open>labelsSize\<close>), then \<open>limitMaxSessionsPerSeries\<close>, then for every sample of the series
  the count, the decompressed size and \<open>ValidateProfile\<close>. An invalid profile ends the
  call; the totals reached so far go into the discarded counters.
\<close>

definition labelsSize :: "Labels \<Rightarrow> int64" where
  "labelsSize ls =
     foldl (\<lambda>total lbs. total + of_nat (length (Name lbs)) + of_nat (length (Value lbs))) 0 ls"

fun accountSamples ::
  "Distributor \<Rightarrow> string \<Rightarrow> bool \<Rightarrow> Labels \<Rightarrow> ProfileSample list \<Rightarrow> int64 \<times> int64
     \<Rightarrow> (Reason \<times> int64 \<times> int64) + (int64 \<times> int64)" where
  "accountSamples d tenant haveRawPprof labels [] totals = Inr totals"
| "accountSamples d tenant haveRawPprof labels (raw # raws) (totalPushUncompressedBytes, totalProfiles) =
     (let totalProfiles = totalProfiles + 1;
          p = Profile raw;
          decompressedSize = (if haveRawPprof then SizeBytes d p else SizeVT d p);
          totalPushUncompressedBytes = totalPushUncompressedBytes + decompressedSize
      in case ValidateProfile d tenant p decompressedSize labels of
           Some reason \<Rightarrow> Inl (reason, totalProfiles, totalPushUncompressedBytes)
         | None \<Rightarrow>
             accountSamples d tenant haveRawPprof labels raws
               (totalPushUncompressedBytes, totalProfiles))"

fun accountSeries ::
  "Distributor \<Rightarrow> string \<Rightarrow> bool \<Rightarrow> ProfileSeries list \<Rightarrow> int64 \<times> int64
     \<Rightarrow> (Reason \<times> int64 \<times> int64) + (int64 \<times> int64 \<times> ProfileSeries list)" where
  "accountSeries d tenant haveRawPprof [] (totalPushUncompressedBytes, totalProfiles) =
     Inr (totalPushUncompressedBytes, totalProfiles, [])"
| "accountSeries d tenant haveRawPprof (series # rest) (totalPushUncompressedBytes, totalProfiles) =
     (let totalPushUncompressedBytes = totalPushUncompressedBytes + labelsSize (Labels series);
          labels = limitMaxSessionsPerSeries (ParseSessionID_of d) (SessionID_String_of d)
                     (MaxSessionsPerSeries d tenant) (Labels series)
      in case accountSamples d tenant haveRawPprof labels (Samples series)
                (totalPushUncompressedBytes, totalProfiles) of
           Inl e \<Rightarrow> Inl e
         | Inr totals \<Rightarrow>
             (case accountSeries d tenant haveRawPprof rest totals of
                Inl e \<Rightarrow> Inl e
              | Inr (bytes, n, rest') \<Rightarrow> Inr (bytes, n, series\<lparr>Labels := labels\<rparr> # rest')))"

text \<open>
  After the split: \<open>tokenize\<close> validates the labels of every resulting series and computes
  its token; \<open>writeSeries\<close> writes every profile back into its buffer, gives the sample a
  fresh id and creates the tracker of the series.
\<close>

fun tokenize ::
  "Distributor \<Rightarrow> string \<Rightarrow> ProfileSeries list \<Rightarrow> Reason + uint32 list" where
  "tokenize d tenant [] = Inr []"
| "tokenize d tenant (series # rest) =
     (case ValidateLabels d tenant (Labels series) of
        Some reason \<Rightarrow> Inl reason
      | None \<Rightarrow>
          (case tokenize d tenant rest of
             Inl reason \<Rightarrow> Inl reason
           | Inr keys \<Rightarrow>
               Inr (TokenFor tenant (LabelPairsString d (Labels series)) # keys)))"

fun writeSamples ::
  "Distributor \<Rightarrow> nat \<Rightarrow> ProfileSample list \<Rightarrow> error + (ProfileSample list \<times> nat)" where
  "writeSamples d n [] = Inr ([], n)"
| "writeSamples d n (raw # raws) =
     (case WriteTo d (Profile raw) of
        Inl e \<Rightarrow> Inl e
      | Inr bytes \<Rightarrow>
          (case writeSamples d (Suc n) raws of
             Inl e \<Rightarrow> Inl e
           | Inr (raws', n') \<Rightarrow> Inr (raw\<lparr>ID := NewString d n, RawProfile := bytes\<rparr> # raws', n')))"

fun writeSeries ::
  "Distributor \<Rightarrow> nat \<Rightarrow> ProfileSeries list \<Rightarrow> error + profileTracker list" where
  "writeSeries d n [] = Inr []"
| "writeSeries d n (series # rest) =
     (case writeSamples d n (Samples series) of
        Inl e \<Rightarrow> Inl e
      | Inr (samples, n') \<Rightarrow>
          (case writeSeries d n' rest of
             Inl e \<Rightarrow> Inl e
           | Inr pts \<Rightarrow>
               Inr (\<lparr>profile = series\<lparr>Samples := samples\<rparr>, minSuccess = 0, maxFailures = 0,
                     succeeded = 0, failed = 0\<rparr> # pts)))"

text \<open>
  \<open>PushParsed\<close> up to its \<open>select\<close>: the result is the error it returns before any
  goroutine is started, or the \<open>dispatch\<close> the goroutines and the \<open>select\<close> work on
  (their steps are the relation \<open>step\<close> below).
\<close>

definition PushParsed :: "Distributor \<Rightarrow> Context \<Rightarrow> PushRequest \<Rightarrow> (error + dispatch) \<times> effects" where
  "PushParsed d ctx req =
     (case TenantID ctx of
        None \<Rightarrow> (Inl (ConnectError CodeUnauthenticated), no_effects)
      | Some tenant \<Rightarrow>
          let series = map PushParsed_normalize (Series req);
              haveRawPprof = (RawProfileType req = RawProfileTypePPROF)
          in case accountSeries d tenant haveRawPprof series (0, 0) of
               Inl (reason, totalProfiles, totalPushUncompressedBytes) \<Rightarrow>
                 (Inl (ConnectError CodeInvalidArgument),
                  no_effects\<lparr>DiscardedProfiles := [(reason, tenant, totalProfiles)],
                             DiscardedBytes := [(reason, tenant, totalPushUncompressedBytes)]\<rparr>)
             | Inr (totalPushUncompressedBytes, totalProfiles, series) \<Rightarrow>
                 if totalProfiles = 0 then (Inl (ConnectError CodeInvalidArgument), no_effects)
                 else
                   let allowed = AllowN d tenant totalPushUncompressedBytes;
                       eff = no_effects\<lparr>AllowN_calls := [(tenant, totalPushUncompressedBytes, allowed)]\<rparr>
                   in if \<not> allowed then
                        (Inl (ConnectError CodeResourceExhausted),
                         eff\<lparr>DiscardedProfiles := [(RateLimited, tenant, totalProfiles)],
                             DiscardedBytes := [(RateLimited, tenant, totalPushUncompressedBytes)]\<rparr>)
                      else
                        (case extractSampleSeries (pprof_lib d) (req\<lparr>Series := series\<rparr>) of
                           None \<Rightarrow> (Inl Panic, eff)
                         | Some (profileSeries, newProfiles) \<Rightarrow>
                             let eff = eff\<lparr>newProfiles_allocated := newProfiles\<rparr>
                             in case tokenize d tenant profileSeries of
                                  Inl reason \<Rightarrow>
                                    (Inl (ConnectError CodeInvalidArgument),
                                     eff\<lparr>DiscardedProfiles := [(reason, tenant, totalProfiles)],
                                         DiscardedBytes := [(reason, tenant, totalPushUncompressedBytes)]\<rparr>)
                                | Inr keys \<Rightarrow>
                                    (case writeSeries d 0 profileSeries of
                                       Inl e \<Rightarrow> (Inl e, eff)
                                     | Inr pts \<Rightarrow>
                                         (case selectShards
                                                 (ShuffleShard_Get d tenant (IngestionTenantShardSize d tenant))
                                                 0 keys
                                                 \<lparr>profiles = pts, samplesByIngester = [],
                                                  ingesterDescs = Map.empty\<rparr> of
                                            Inl e \<Rightarrow> (Inl e, eff)
                                          | Inr st \<Rightarrow>
                                              let goroutines =
                                                    map (\<lambda>(ingester, samples). (ingesterDescs st ingester, samples))
                                                      (samplesByIngester st)
                                              in (Inr \<lparr>trackers = profiles st, tasks = goroutines,
                                                       tracker = \<lparr>samplesPending = of_nat (length (profiles st)),
                                                                  samplesFailed = 0, done_chan = 0, err_chan = []\<rparr>\<rparr>,
                                                  eff\<lparr>launched := goroutines\<rparr>)))))"

section \<open>Fan-out: \<open>sendProfiles\<close> and the \<open>select\<close> of \<open>PushParsed\<close>\<close>

text \<open>
  The goroutines that \<open>PushParsed\<close> starts and its final \<open>select\<close> run concurrently.
  They share the trackers and the \<open>pushTracker\<close> and touch them only through atomic
  operations (\<open>Inc\<close>, \<open>Dec\<close>) and channel operations, so a run is an interleaving of
  these operations: the relation \<open>step\<close> makes one of them at a time.

  A goroutine runs \<open>sendProfiles\<close> on its list of trackers. Its program counter says
  where it is: \<open>Sending\<close> before \<open>sendProfilesErr\<close> has returned; \<open>Loop err i\<close> at the
  head of iteration \<open>i\<close> of the loop, \<open>err\<close> being the result of \<open>sendProfilesErr\<close>;
  \<open>IncFailed\<close> after \<open>failed.Inc()\<close> exceeded \<open>maxFailures\<close>, before
  \<open>samplesFailed.Inc()\<close>; \<open>SendErr\<close> before the send on the \<open>err\<close> channel; \<open>DecPending\<close>
  after \<open>succeeded.Inc()\<close> returned \<open>minSuccess\<close>, before \<open>samplesPending.Dec()\<close>;
  \<open>SendDone\<close> before the send on the \<open>done\<close> channel. A send on a full channel blocks.
  The caller waits in the \<open>select\<close> and returns on the first of: an error on \<open>err\<close>, a
  value on \<open>done\<close> (a response and no error: \<open>Returned None\<close>), its context being done.
\<close>

datatype pc =
    Sending
  | Loop "error option" nat
  | IncFailed error nat
  | SendErr error nat
  | DecPending nat
  | SendDone nat

record goroutine =
  profileTrackers :: "nat list"
  pc :: pc

datatype caller = Waiting | Returned "error option"

record world =
  w_trackers :: "profileTracker list"
  w_tracker :: pushTracker
  goroutines :: "goroutine list"
  caller :: caller

definition start :: "dispatch \<Rightarrow> world" where
  "start dsp =
     \<lparr>w_trackers = trackers dsp, w_tracker = tracker dsp,
      goroutines = map (\<lambda>(ingester, samples). \<lparr>profileTrackers = samples, pc = Sending\<rparr>) (tasks dsp),
      caller = Waiting\<rparr>"

definition setPc :: "nat \<Rightarrow> pc \<Rightarrow> world \<Rightarrow> world" where
  "setPc g p w = w\<lparr>goroutines := (goroutines w)[g := (goroutines w ! g)\<lparr>pc := p\<rparr>]\<rparr>"

definition failed_Inc :: "nat \<Rightarrow> world \<Rightarrow> world" where
  "failed_Inc t w =
     w\<lparr>w_trackers := (w_trackers w)[t := (w_trackers w ! t)\<lparr>failed := failed (w_trackers w ! t) + 1\<rparr>]\<rparr>"

definition succeeded_Inc :: "nat \<Rightarrow> world \<Rightarrow> world" where
  "succeeded_Inc t w =
     w\<lparr>w_trackers := (w_trackers w)[t := (w_trackers w ! t)\<lparr>succeeded := succeeded (w_trackers w ! t) + 1\<rparr>]\<rparr>"

definition samplesFailed_Inc :: "world \<Rightarrow> world" where
  "samplesFailed_Inc w = w\<lparr>w_tracker := (w_tracker w)\<lparr>samplesFailed := samplesFailed (w_tracker w) + 1\<rparr>\<rparr>"

definition samplesPending_Dec :: "world \<Rightarrow> world" where
  "samplesPending_Dec w = w\<lparr>w_tracker := (w_tracker w)\<lparr>samplesPending := samplesPending (w_tracker w) - 1\<rparr>\<rparr>"

definition send_err :: "error \<Rightarrow> world \<Rightarrow> world" where
  "send_err e w = w\<lparr>w_tracker := (w_tracker w)\<lparr>err_chan := err_chan (w_tracker w) @ [e]\<rparr>\<rparr>"

definition send_done :: "world \<Rightarrow> world" where
  "send_done w = w\<lparr>w_tracker := (w_tracker w)\<lparr>done_chan := Suc (done_chan (w_tracker w))\<rparr>\<rparr>"

inductive step :: "world \<Rightarrow> world \<Rightarrow> bool" where
  rpc_returns:
    "g < length (goroutines w) \<Longrightarrow> pc (goroutines w ! g) = Sending \<Longrightarrow>
     step w (setPc g (Loop res 0) w)"
| count_failure:
    "g < length (goroutines w) \<Longrightarrow> pc (goroutines w ! g) = Loop (Some e) i \<Longrightarrow>
     i < length (profileTrackers (goroutines w ! g)) \<Longrightarrow>
     t = profileTrackers (goroutines w ! g) ! i \<Longrightarrow> t < length (w_trackers w) \<Longrightarrow>
     step w (setPc g
              (if sint (failed (w_trackers w ! t) + 1)
                    \<le> sint (ucast (maxFailures (w_trackers w ! t)) :: int32)
               then Loop (Some e) (Suc i) else IncFailed e i)
              (failed_Inc t w))"
| count_failed_sample:
    "g < length (goroutines w) \<Longrightarrow> pc (goroutines w ! g) = IncFailed e i \<Longrightarrow>
     step w (setPc g
              (if samplesFailed (w_tracker w) + 1 = 1 then SendErr e i else Loop (Some e) (Suc i))
              (samplesFailed_Inc w))"
| publish_err:
    "g < length (goroutines w) \<Longrightarrow> pc (goroutines w ! g) = SendErr e i \<Longrightarrow>
     length (err_chan (w_tracker w)) < 1 \<Longrightarrow>
     step w (setPc g (Loop (Some e) (Suc i)) (send_err e w))"
| count_success:
    "g < length (goroutines w) \<Longrightarrow> pc (goroutines w ! g) = Loop None i \<Longrightarrow>
     i < length (profileTrackers (goroutines w ! g)) \<Longrightarrow>
     t = profileTrackers (goroutines w ! g) ! i \<Longrightarrow> t < length (w_trackers w) \<Longrightarrow>
     step w (setPc g
              (if succeeded (w_trackers w ! t) + 1 \<noteq> ucast (minSuccess (w_trackers w ! t))
               then Loop None (Suc i) else DecPending i)
              (succeeded_Inc t w))"
| count_done_sample:
    "g < length (goroutines w) \<Longrightarrow> pc (goroutines w ! g) = DecPending i \<Longrightarrow>
     step w (setPc g
              (if samplesPending (w_tracker w) - 1 = 0 then SendDone i else Loop None (Suc i))
              (samplesPending_Dec w))"
| publish_done:
    "g < length (goroutines w) \<Longrightarrow> pc (goroutines w ! g) = SendDone i \<Longrightarrow>
     done_chan (w_tracker w) < 1 \<Longrightarrow>
     step w (setPc g (Loop None (Suc i)) (send_done w))"
| select_err:
    "caller w = Waiting \<Longrightarrow> err_chan (w_tracker w) = e # rest \<Longrightarrow>
     step w (w\<lparr>w_tracker := (w_tracker w)\<lparr>err_chan := rest\<rparr>, caller := Returned (Some e)\<rparr>)"
| select_done:
    "caller w = Waiting \<Longrightarrow> done_chan (w_tracker w) = Suc m \<Longrightarrow>
     step w (w\<lparr>w_tracker := (w_tracker w)\<lparr>done_chan := m\<rparr>, caller := Returned None\<rparr>)"
| select_ctx_done:
    "caller w = Waiting \<Longrightarrow>
     step w (w\<lparr>caller := Returned (Some (OtherError ''context done''))\<rparr>)"

text \<open>
  A goroutine whose push was answered without error has a program counter on the success
  side of the loop. \<open>acknowledged w k\<close> is the number of goroutines of \<open>w\<close> that were
  given series \<open>k\<close> and whose ingester answered their push without error: the successful
  replica acknowledgements of series \<open>k\<close>.
\<close>

fun rpcSucceeded :: "pc \<Rightarrow> bool" where
  "rpcSucceeded (Loop None i) = True"
| "rpcSucceeded (DecPending i) = True"
| "rpcSucceeded (SendDone i) = True"
| "rpcSucceeded _ = False"

definition acknowledged :: "world \<Rightarrow> nat \<Rightarrow> nat" where
  "acknowledged w k =
     length (filter (\<lambda>g. rpcSucceeded (pc g) \<and> k \<in> set (profileTrackers g)) (goroutines w))"

text \<open>
  What the fan-out needs of the dispatch it starts from: an ingester is given a series at
  most once and only series of the request (the ring returns distinct instances for a
  key); the counters are fresh; the numbers of series and of ingesters and every
  \<open>minSuccess\<close> fit the 32-bit counters they are compared with.
\<close>

definition wellformed :: "dispatch \<Rightarrow> bool" where
  "wellformed dsp \<longleftrightarrow>
     (\<forall>samples\<in>set (map snd (tasks dsp)).
        distinct samples \<and> (\<forall>t\<in>set samples. t < length (trackers dsp)))
     \<and> length (trackers dsp) + length (tasks dsp) < 2 ^ 32
     \<and> (\<forall>p\<in>set (trackers dsp). succeeded p = 0 \<and> sint (minSuccess p) < 2 ^ 31)
     \<and> samplesPending (tracker dsp) = of_nat (length (trackers dsp))
     \<and> done_chan (tracker dsp) = 0"

text \<open>
  The bookkeeping of the proof. \<open>pos\<close> is the number of trackers of its list a goroutine
  has counted; \<open>recorded w k\<close> is how often a success has been counted on tracker \<open>k\<close>;
  series \<open>k\<close> is \<open>hit\<close> once one of these counts returned its \<open>minSuccess\<close>; \<open>deciding\<close>
  counts the goroutines between such a count and their \<open>samplesPending.Dec()\<close>;
  \<open>announced\<close> says that a \<open>Dec\<close> has returned 0.
\<close>

fun pos :: "pc \<Rightarrow> nat" where
  "pos Sending = 0"
| "pos (Loop res i) = i"
| "pos (IncFailed e i) = Suc i"
| "pos (SendErr e i) = Suc i"
| "pos (DecPending i) = Suc i"
| "pos (SendDone i) = Suc i"

fun isDecPending :: "pc \<Rightarrow> bool" where
  "isDecPending (DecPending i) = True"
| "isDecPending _ = False"

fun isSendDone :: "pc \<Rightarrow> bool" where
  "isSendDone (SendDone i) = True"
| "isSendDone _ = False"

definition credit :: "nat \<Rightarrow> goroutine \<Rightarrow> nat" where
  "credit k g =
     (if rpcSucceeded (pc g) then count_list (take (pos (pc g)) (profileTrackers g)) k else 0)"

definition recorded :: "world \<Rightarrow> nat \<Rightarrow> nat" where
  "recorded w k = sum_list (map (credit k) (goroutines w))"

definition hit :: "dispatch \<Rightarrow> world \<Rightarrow> nat \<Rightarrow> bool" where
  "hit dsp w k \<longleftrightarrow>
     (\<exists>m. 0 < m \<and> m \<le> recorded w k
          \<and> (of_nat m :: int32) = ucast (minSuccess (trackers dsp ! k)))"

definition hits :: "dispatch \<Rightarrow> world \<Rightarrow> nat set" where
  "hits dsp w = {k. k < length (trackers dsp) \<and> hit dsp w k}"

definition deciding :: "world \<Rightarrow> nat" where
  "deciding w = sum_list (map (\<lambda>g. if isDecPending (pc g) then 1 else 0) (goroutines w))"

definition announced :: "world \<Rightarrow> bool" where
  "announced w \<longleftrightarrow>
     0 < done_chan (w_tracker w) \<or> caller w = Returned None
     \<or> (\<exists>g\<in>set (goroutines w). isSendDone (pc g))"

definition fanout_inv :: "dispatch \<Rightarrow> world \<Rightarrow> bool" where
  "fanout_inv dsp w \<longleftrightarrow>
     map minSuccess (w_trackers w) = map minSuccess (trackers dsp)
     \<and> map profileTrackers (goroutines w) = map snd (tasks dsp)
     \<and> (\<forall>k<length (trackers dsp). succeeded (w_trackers w ! k) = of_nat (recorded w k))
     \<and> samplesPending (w_tracker w) + of_nat (card (hits dsp w))
         = of_nat (length (trackers dsp)) + of_nat (deciding w)
     \<and> (announced w \<longrightarrow> (\<forall>k<length (trackers dsp). hit dsp w k))"

section \<open>Notions of the claims\<close>

text \<open>
  The pair a sample label stands for, and whether its two indices lie in the string
  table of the profile.
\<close>

definition sampleLabelPair :: "Profile \<Rightarrow> Label \<Rightarrow> LabelPair" where
  "sampleLabelPair p l =
     \<lparr>Name = StringTable p ! nat (sint (Key l)), Value = StringTable p ! nat (sint (Str l))\<rparr>"

definition labelInRange :: "Profile \<Rightarrow> Label \<Rightarrow> bool" where
  "labelInRange p l \<longleftrightarrow>
     0 \<le> sint (Key l) \<and> sint (Key l) < int (length (StringTable p)) \<and>
     0 \<le> sint (Str l) \<and> sint (Str l) < int (length (StringTable p))"

text \<open>
  Counting: the pprof samples of a list of profile samples and of a list of series, and
  the profiles of a list of series. \<open>preparedSample\<close> is an input sample after the
  in-place preparation of its profile; \<open>keepsSample\<close> says that \<open>extractSampleSeries\<close>
  finds no sample labels in it; \<open>keptSeries\<close> is the series \<open>s\<close> that
  \<open>extractSampleSeries\<close> builds for an input series.
\<close>

definition samplesOf :: "ProfileSample list \<Rightarrow> nat" where
  "samplesOf raws = sum_list (map (\<lambda>raw. length (Sample (Profile raw))) raws)"








section \<open>Stand-ins for pkg/pprof and examples\<close>













text \<open>
  One series replicated to three ingesters with \<open>maxErrors = 1\<close>, and the states of a run
  in which the first two ingesters answer and the third has not answered yet.
\<close>

definition quorumDispatch :: dispatch where
  "quorumDispatch =
     \<lparr>trackers = [\<lparr>profile = \<lparr>Labels = [], Samples = []\<rparr>, minSuccess = 2, maxFailures = 1,
                   succeeded = 0, failed = 0\<rparr>],
      tasks = [(Some \<lparr>Addr = ''ingester-a''\<rparr>, [0]), (Some \<lparr>Addr = ''ingester-b''\<rparr>, [0]),
               (Some \<lparr>Addr = ''ingester-c''\<rparr>, [0])],
      tracker = \<lparr>samplesPending = 1, samplesFailed = 0, done_chan = 0, err_chan = []\<rparr>\<rparr>"

definition quorumWorld :: "int32 \<Rightarrow> int32 \<Rightarrow> nat \<Rightarrow> pc \<Rightarrow> pc \<Rightarrow> caller \<Rightarrow> world" where
  "quorumWorld s pending buffered pc_a pc_b c =
     \<lparr>w_trackers = [\<lparr>profile = \<lparr>Labels = [], Samples = []\<rparr>, minSuccess = 2, maxFailures = 1,
                     succeeded = s, failed = 0\<rparr>],
      w_tracker = \<lparr>samplesPending = pending, samplesFailed = 0, done_chan = buffered, err_chan = []\<rparr>,
      goroutines = [\<lparr>profileTrackers = [0], pc = pc_a\<rparr>, \<lparr>profileTrackers = [0], pc = pc_b\<rparr>,
                    \<lparr>profileTrackers = [0], pc = Sending\<rparr>],
      caller = c\<rparr>"

section \<open>Properties of \<open>TokenFor\<close>\<close>

lemma sum32_Write_foldl:
  "sum32_Write h bs = foldl (\<lambda>h c. (h * 16777619) XOR of_char c) h bs"
  by (induction bs arbitrary: h) (simp_all add: prime32_def)

lemma sum32_Write_append:
  "sum32_Write (sum32_Write h xs) ys = sum32_Write h (xs @ ys)"
  by (simp add: sum32_Write_foldl)

text \<open>
  Claim C3, as amended. The specification says that \<open>TokenFor\<close> is the 32-bit FNV-1a hash of
  the tenant id followed by the label string. The code calls \<open>fnv.New32\<close>, not
  \<open>fnv.New32a\<close>: for every tenant id and label string the token is the 32-bit FNV-1 hash
  (multiply, then xor) of the concatenation of their bytes.
\<close>

theorem TokenFor_is_FNV1_32:
  "TokenFor tenantID labels = FNV1_32 (tenantID @ labels)"
  by (simp add: TokenFor_def Sum32_def New32_def offset32_def FNV1_32_def sum32_Write_foldl)

text \<open>
  Claim C3 as stated fails: for the empty tenant id and the one-byte label string \<open>a\<close> the
  code returns \<open>0x050c5d7e\<close>, while FNV-1a of \<open>a\<close> is \<open>0xe40c292c\<close>.
\<close>

theorem TokenFor_not_FNV1a32:
  "TokenFor '''' ''a'' = 84696446 \<and> FNV1a32 ('''' @ ''a'') = 3826002220
   \<and> TokenFor '''' ''a'' \<noteq> FNV1a32 ('''' @ ''a'')"
  by (simp add: TokenFor_def Sum32_def New32_def offset32_def prime32_def FNV1a32_def)

text \<open>
  Claim C4, as amended. \<open>TokenFor\<close> is a function of its two arguments (two evaluations on
  the same input give the same token), and it depends on them only through the
  concatenation of their bytes: whenever the tenant id followed by the label string is the
  same byte sequence, the tokens are equal. The converse is not claimed.
\<close>

theorem TokenFor_equal_on_equal_strings:
  "tenantID1 @ labels1 = tenantID2 @ labels2 \<Longrightarrow>
     TokenFor tenantID1 labels1 = TokenFor tenantID2 labels2"
  by (simp add: TokenFor_def sum32_Write_append)

theorem TokenFor_equal_on_equal_strings_witness:
  "''ab'' @ ''c'' = ''a'' @ ''bc'' \<and> TokenFor ''ab'' ''c'' = TokenFor ''a'' ''bc''"
  using TokenFor_equal_on_equal_strings [of "''ab''" "''c''" "''a''" "''bc''"] by simp

text \<open>
  Claim C4 as stated fails in the direction from equal tokens to equal strings: a token
  has 32 bits, and the two canonical label strings \<open>{service_name="siwuyv"}\<close> and
  \<open>{service_name="hdiimx"}\<close> of tenant \<open>t1\<close> (the double quote is the byte \<open>0x22\<close>) get the
  same token \<open>2654669429\<close>.
\<close>

theorem TokenFor_collision:
  "TokenFor ''t1'' (''{service_name='' @ [CHR 0x22] @ ''siwuyv'' @ [CHR 0x22] @ ''}'')
     = TokenFor ''t1'' (''{service_name='' @ [CHR 0x22] @ ''hdiimx'' @ [CHR 0x22] @ ''}'')
   \<and> ''t1'' @ (''{service_name='' @ [CHR 0x22] @ ''siwuyv'' @ [CHR 0x22] @ ''}'')
     \<noteq> ''t1'' @ (''{service_name='' @ [CHR 0x22] @ ''hdiimx'' @ [CHR 0x22] @ ''}'')"
  by (simp add: TokenFor_def Sum32_def New32_def offset32_def prime32_def)

section \<open>Words\<close>

lemma uint_as_sint: "uint (x :: 64 word) = take_bit 64 (sint x)"
  using uint_sint [of x] by simp

lemma uint_of_nonneg:
  assumes "0 \<le> sint (x :: 64 word)"
  shows "uint x = sint x"
proof -
  have "sint x < 2 ^ (LENGTH(64) - 1)"
    by (rule sint_lt)
  then have "sint x < 2 ^ 63"
    by simp
  moreover have "(2 :: int) ^ 63 \<le> 2 ^ 64"
    by (rule power_increasing) simp_all
  ultimately have "sint x < 2 ^ 64"
    by (rule order_less_le_trans)
  with assms have "take_bit 64 (sint x) = sint x"
    by (rule take_bit_int_eq_self)
  with uint_as_sint [of x] show ?thesis
    by (rule trans)
qed

lemma int32_of_small_int:
  assumes p: "0 \<le> sint (x :: 64 word)"
  shows "(ucast x :: 32 word) = of_nat (nat (sint x))"
proof -
  have "(ucast x :: 32 word) = word_of_int (uint x)"
    by (rule ucast_eq)
  also have "\<dots> = word_of_int (sint x)"
    by (simp only: uint_of_nonneg [OF p])
  also from p have "\<dots> = of_nat (nat (sint x))"
    by (rule word_of_int_nat)
  finally show ?thesis .
qed

lemma of_nat_32_inj:
  assumes a: "a < 2 ^ 32" and b: "b < 2 ^ 32" and e: "(of_nat a :: 32 word) = of_nat b"
  shows "a = b"
proof -
  from e have "unat (of_nat a :: 32 word) = unat (of_nat b :: 32 word)"
    by simp
  then have "a mod 2 ^ 32 = b mod 2 ^ 32"
    by (simp add: unat_of_nat)
  with a b show "a = b"
    by simp
qed

lemma go_rem_nonneg: "0 \<le> a \<Longrightarrow> 0 < b \<Longrightarrow> go_rem a b = a mod b"
  by (cases "a = 0") (simp_all add: go_rem_def)

lemma int_rem_small:
  assumes "0 \<le> sint a" and "0 < sint b"
  shows "int_rem a b = a mod b"
proof -
  from assms(2) have nb: "0 \<le> sint b"
    by simp
  have "a mod b = word_of_int (uint a mod uint b)"
    by (simp add: word_mod_def)
  also have "\<dots> = word_of_int (sint a mod sint b)"
    by (simp only: uint_of_nonneg [OF assms(1)] uint_of_nonneg [OF nb])
  also have "\<dots> = int_rem a b"
    by (simp only: int_rem_def go_rem_nonneg [OF assms])
  finally show ?thesis
    by (rule sym)
qed

section \<open>Properties of the label functions\<close>

lemma Labels_Clone_id: "Labels_Clone ls = ls"
proof -
  have same: "\<lparr>Name = Name l, Value = Value l\<rparr> = l" for l :: LabelPair
    by (cases l) simp
  show ?thesis
    by (simp add: Labels_Clone_def same)
qed

lemma Labels_Unique_set: "set (Labels_Unique xs) \<subseteq> set xs"
  by (induction xs rule: Labels_Unique.induct) auto

lemma Labels_Unique_names: "Name ` set (Labels_Unique xs) = Name ` set xs"
  by (induction xs rule: Labels_Unique.induct) auto

lemma Labels_Unique_distinct: "distinct (map Name (Labels_Unique xs))"
proof (induction xs rule: Labels_Unique.induct)
  case 1
  show ?case by simp
next
  case (2 l ls)
  have "Name l \<notin> Name ` set (Labels_Unique (filter (\<lambda>m. Name m \<noteq> Name l) ls))"
    by (auto simp: Labels_Unique_names)
  with 2 show ?case by simp
qed

lemma Labels_Unique_sorted:
  "sorted (map Name xs) \<Longrightarrow> sorted (map Name (Labels_Unique xs))"
proof (induction xs rule: Labels_Unique.induct)
  case 1
  show ?case by simp
next
  case (2 l ls)
  from 2(2) have tl: "sorted (map Name ls)" and hd: "\<forall>x\<in>set ls. Name l \<le> Name x"
    by auto
  have "sorted (map Name (filter (\<lambda>m. Name m \<noteq> Name l) ls))"
    using tl by (simp add: sorted_filter)
  then have "sorted (map Name (Labels_Unique (filter (\<lambda>m. Name m \<noteq> Name l) ls)))"
    by (rule 2(1))
  moreover have "\<forall>x\<in>set (Labels_Unique (filter (\<lambda>m. Name m \<noteq> Name l) ls)). Name l \<le> Name x"
    using hd Labels_Unique_set [of "filter (\<lambda>m. Name m \<noteq> Name l) ls"] by auto
  ultimately show ?case by simp
qed

lemma find_filter_other:
  "a \<noteq> n \<Longrightarrow> find (\<lambda>x. Name x = n) (filter (\<lambda>m. Name m \<noteq> a) xs) = find (\<lambda>x. Name x = n) xs"
  by (induction xs) auto

lemma Labels_Unique_find:
  "find (\<lambda>x. Name x = n) (Labels_Unique xs) = find (\<lambda>x. Name x = n) xs"
proof (induction xs rule: Labels_Unique.induct)
  case 1
  show ?case by simp
next
  case (2 l ls)
  show ?case
  proof (cases "Name l = n")
    case True
    then show ?thesis by simp
  next
    case False
    then show ?thesis using 2 by (simp add: find_filter_other)
  qed
qed

lemma Labels_Unique_id: "distinct (map Name xs) \<Longrightarrow> Labels_Unique xs = xs"
proof (induction xs)
  case Nil
  show ?case by simp
next
  case (Cons l ls)
  from Cons.prems have "Name l \<notin> Name ` set ls"
    by simp
  then have "\<forall>x\<in>set ls. Name x \<noteq> Name l"
    by (metis image_eqI)
  then have "filter (\<lambda>m. Name m \<noteq> Name l) ls = ls"
    by (simp add: filter_id_conv)
  with Cons show ?case by simp
qed

lemma find_as_filter:
  "find P xs = (case filter P xs of [] \<Rightarrow> None | y # _ \<Rightarrow> Some y)"
  by (induction xs) auto

lemma sort_Stable_find:
  "find (\<lambda>x. Name x = n) (sort_Stable xs) = find (\<lambda>x. Name x = n) xs"
  by (simp add: find_as_filter sort_Stable_def sort_key_stable)


lemma Labels_GetLabel_Some:
  "Labels_GetLabel ls name = Some i \<Longrightarrow>
     i < length ls \<and> Name (ls ! i) = name \<and> Value (ls ! i) = Labels_Get ls name"
proof (induction ls arbitrary: i)
  case Nil
  then show ?case by simp
next
  case (Cons l ls)
  show ?case
  proof (cases "Name l = name")
    case True
    with Cons.prems show ?thesis by simp
  next
    case False
    with Cons.prems obtain j where j: "Labels_GetLabel ls name = Some j" and i: "i = Suc j"
      by auto
    from Cons.IH [OF j] False i show ?thesis by simp
  qed
qed

lemma Labels_GetLabel_present:
  "name \<in> Name ` set ls \<Longrightarrow> \<exists>i. Labels_GetLabel ls name = Some i"
  by (induction ls) auto

lemma Labels_Delete_names: "name \<notin> Name ` set (Labels_Delete ls name)"
  by (auto simp: Labels_Delete_def)

section \<open>Label normalisation\<close>




section \<open>Session ids\<close>

lemma limitMaxSessionsPerSeries_zero:
  "limitMaxSessionsPerSeries parse render 0 labels
     = filter (\<lambda>l. Name l \<noteq> LabelNameSessionID) labels"
  by (simp add: limitMaxSessionsPerSeries_def Labels_Delete_def)

lemma limitMaxSessionsPerSeries_reduce:
  assumes "maxSessionsPerSeries \<noteq> 0"
    and "Labels_GetLabel labels LabelNameSessionID = Some i"
    and "parse (Value (labels ! i)) = Some sessionID"
  shows "limitMaxSessionsPerSeries parse render maxSessionsPerSeries labels
           = labels[i := (labels ! i)\<lparr>Value := render (int_rem sessionID maxSessionsPerSeries)\<rparr>]"
  using assms by (simp add: limitMaxSessionsPerSeries_def)

lemma limitMaxSessionsPerSeries_reduce_small:
  assumes "0 < sint maxSessionsPerSeries"
    and "Labels_GetLabel labels LabelNameSessionID = Some i"
    and "parse (Value (labels ! i)) = Some sessionID"
    and "0 \<le> sint sessionID"
  shows "limitMaxSessionsPerSeries parse render maxSessionsPerSeries labels
           = labels[i := (labels ! i)\<lparr>Value := render (sessionID mod maxSessionsPerSeries)\<rparr>]"
proof -
  from assms(1) have nz: "maxSessionsPerSeries \<noteq> 0"
    by auto
  from nz assms(2,3)
  have "limitMaxSessionsPerSeries parse render maxSessionsPerSeries labels
          = labels[i := (labels ! i)\<lparr>Value := render (int_rem sessionID maxSessionsPerSeries)\<rparr>]"
    by (rule limitMaxSessionsPerSeries_reduce)
  then show ?thesis
    by (simp only: int_rem_small [OF assms(4,1)])
qed

text \<open>
  Claim C9 at a failing input. With \<open>MaxSessionsPerSeries = 8\<close> the session id
  \<open>ffffffffffffffff\<close> parses to \<open>2^64 - 1\<close>; \<open>int(sessionID)\<close> is \<open>-1\<close>, \<open>-1 % 8\<close> is \<open>-1\<close> in
  Go, and \<open>SessionID(-1)\<close> is \<open>2^64 - 1\<close> again: the label keeps the value
  \<open>ffffffffffffffff\<close>, while \<open>(2^64 - 1) mod 8\<close> is 7. (By \<open>limitMaxSessionsPerSeries_zero\<close>
  and \<open>limitMaxSessionsPerSeries_reduce_small\<close> the code does what the claim says when the
  limit is 0, and when the limit is positive and the session id is below \<open>2^63\<close>.)
\<close>

theorem limitMaxSessionsPerSeries_high_bit:
  "ParseSessionID ''ffffffffffffffff'' = Some 18446744073709551615
   \<and> int_rem 18446744073709551615 8 = 18446744073709551615
   \<and> limitMaxSessionsPerSeries ParseSessionID SessionID_String 8
        [\<lparr>Name = ''session_id'', Value = ''ffffffffffffffff''\<rparr>]
       = [\<lparr>Name = ''session_id'', Value = ''ffffffffffffffff''\<rparr>]
   \<and> (18446744073709551615 :: uint64) mod 8 = 7
   \<and> SessionID_String 7 = ''0000000000000007''"
proof -
  have p: "ParseSessionID ''ffffffffffffffff'' = Some 18446744073709551615"
    by (simp add: ParseSessionID_def hexDigit_def)
  have r: "int_rem 18446744073709551615 8 = 18446744073709551615"
    by (simp add: int_rem_def go_rem_def)
  have s: "SessionID_String 18446744073709551615 = ''ffffffffffffffff''"
    by (simp add: SessionID_String_def hexChar_def upt_rec)
  have l: "limitMaxSessionsPerSeries ParseSessionID SessionID_String 8
        [\<lparr>Name = ''session_id'', Value = ''ffffffffffffffff''\<rparr>]
       = [\<lparr>Name = ''session_id'', Value = ''ffffffffffffffff''\<rparr>]"
    by (simp add: limitMaxSessionsPerSeries_def LabelNameSessionID_def p r s)
  have m: "(18446744073709551615 :: uint64) mod 8 = 7"
    by simp
  have t: "SessionID_String 7 = ''0000000000000007''"
    by (simp add: SessionID_String_def hexChar_def upt_rec)
  from p r l m t show ?thesis by blast
qed

text \<open>
  Claim C10. When the limit is not 0 (in particular when it is positive), the series
  carries a \<open>session_id\<close> label and the value of that label (of the first one, which
  \<open>Get\<close> and \<open>GetLabel\<close> find) does not parse as a session id, then
  \<open>limitMaxSessionsPerSeries\<close> returns the labels without the \<open>session_id\<close> labels: no
  error is returned, no \<open>session_id\<close> label is kept, and the other labels are unchanged
  and in their order.
\<close>

theorem limitMaxSessionsPerSeries_unparsable:
  assumes "maxSessionsPerSeries \<noteq> 0"
    and "LabelNameSessionID \<in> Name ` set labels"
    and "parse (Labels_Get labels LabelNameSessionID) = None"
  shows "limitMaxSessionsPerSeries parse render maxSessionsPerSeries labels
           = filter (\<lambda>l. Name l \<noteq> LabelNameSessionID) labels
         \<and> LabelNameSessionID
             \<notin> Name ` set (limitMaxSessionsPerSeries parse render maxSessionsPerSeries labels)"
proof -
  from assms(2) obtain i where i: "Labels_GetLabel labels LabelNameSessionID = Some i"
    using Labels_GetLabel_present by blast
  then have "Value (labels ! i) = Labels_Get labels LabelNameSessionID"
    by (simp add: Labels_GetLabel_Some)
  with assms(3) have "parse (Value (labels ! i)) = None"
    by simp
  with assms(1) i
  have "limitMaxSessionsPerSeries parse render maxSessionsPerSeries labels
          = Labels_Delete labels LabelNameSessionID"
    by (simp add: limitMaxSessionsPerSeries_def)
  then show ?thesis
    using Labels_Delete_names [of LabelNameSessionID labels] by (simp add: Labels_Delete_def)
qed

theorem limitMaxSessionsPerSeries_unparsable_witness:
  "(8 :: go_int) \<noteq> 0
   \<and> LabelNameSessionID \<in> Name ` set [\<lparr>Name = ''__name__'', Value = ''cpu''\<rparr>,
                                        \<lparr>Name = ''session_id'', Value = ''zz''\<rparr>]
   \<and> ParseSessionID (Labels_Get [\<lparr>Name = ''__name__'', Value = ''cpu''\<rparr>,
                                  \<lparr>Name = ''session_id'', Value = ''zz''\<rparr>] LabelNameSessionID) = None
   \<and> limitMaxSessionsPerSeries ParseSessionID SessionID_String 8
        [\<lparr>Name = ''__name__'', Value = ''cpu''\<rparr>, \<lparr>Name = ''session_id'', Value = ''zz''\<rparr>]
       = [\<lparr>Name = ''__name__'', Value = ''cpu''\<rparr>]"
  using limitMaxSessionsPerSeries_unparsable
    [of 8 "[\<lparr>Name = ''__name__'', Value = ''cpu''\<rparr>, \<lparr>Name = ''session_id'', Value = ''zz''\<rparr>]"
        ParseSessionID SessionID_String]
  by (simp add: LabelNameSessionID_def ParseSessionID_def hexDigit_def)

section \<open>Merging series labels and sample labels\<close>

lemma appendSampleLabels_Some:
  "\<forall>l\<in>set pl. labelInRange p l \<Longrightarrow>
     appendSampleLabels p m pl = Some (m @ map (sampleLabelPair p) pl)"
  by (induction pl arbitrary: m) (simp_all add: labelInRange_def stringAt_def sampleLabelPair_def)

lemma mergeSeriesAndSampleLabels_value:
  assumes "\<forall>l\<in>set pl. labelInRange p l"
  shows "mergeSeriesAndSampleLabels p sl pl
           = Some (Labels_Unique (sort_Stable (sl @ map (sampleLabelPair p) pl)))"
  by (simp add: mergeSeriesAndSampleLabels_def appendSampleLabels_Some [OF assms] Labels_Clone_id)

lemma find_append_series:
  "find (\<lambda>x. Name x = Name l) (sl @ ys) = Some l" if "l \<in> set sl" "distinct (map Name sl)"
  using that by (induction sl) (auto simp: image_iff)

text \<open>
  Claim C7. For every series-label list \<open>sl\<close> that is sorted by name with unique names and
  every group \<open>pl\<close> of sample labels whose indices lie in the string table of the profile,
  \<open>mergeSeriesAndSampleLabels\<close> returns a list \<open>m\<close> that is sorted by name and has unique
  names; for every name, the label of that name in \<open>m\<close> is the first label of that name
  in \<open>sl\<close> followed by the sample labels resolved through the string table (stable order,
  first occurrence kept); so every series label is in \<open>m\<close>: a series label wins over a
  sample label of its name. With no sample labels the result is \<open>sl\<close>.
\<close>

theorem mergeSeriesAndSampleLabels_spec:
  assumes "sorted (map Name sl)" and "distinct (map Name sl)"
    and "\<forall>l\<in>set pl. labelInRange p l"
  shows "\<exists>m. mergeSeriesAndSampleLabels p sl pl = Some m
           \<and> sorted (map Name m) \<and> distinct (map Name m)
           \<and> (\<forall>n. find (\<lambda>x. Name x = n) m
                    = find (\<lambda>x. Name x = n) (sl @ map (sampleLabelPair p) pl))
           \<and> set sl \<subseteq> set m
           \<and> mergeSeriesAndSampleLabels p sl [] = Some sl"
proof -
  let ?all = "sl @ map (sampleLabelPair p) pl"
  let ?m = "Labels_Unique (sort_Stable ?all)"
  have val: "mergeSeriesAndSampleLabels p sl pl = Some ?m"
    by (rule mergeSeriesAndSampleLabels_value [OF assms(3)])
  have srt: "sorted (map Name ?m)"
    by (rule Labels_Unique_sorted) (simp add: sort_Stable_def)
  have dst: "distinct (map Name ?m)"
    by (rule Labels_Unique_distinct)
  have fnd: "find (\<lambda>x. Name x = n) ?m = find (\<lambda>x. Name x = n) ?all" for n
    by (simp add: Labels_Unique_find sort_Stable_find)
  have wins: "set sl \<subseteq> set ?m"
  proof
    fix l assume "l \<in> set sl"
    then have "find (\<lambda>x. Name x = Name l) ?all = Some l"
      using assms(2) by (rule find_append_series)
    then have "find (\<lambda>x. Name x = Name l) ?m = Some l"
      by (simp add: fnd)
    then show "l \<in> set ?m"
      by (auto simp: find_Some_iff)
  qed
  have "sort_Stable sl = sl"
    using assms(1) by (simp add: sort_Stable_def sort_key_id_if_sorted)
  then have idem: "mergeSeriesAndSampleLabels p sl [] = Some sl"
    using assms(2) by (simp add: mergeSeriesAndSampleLabels_def Labels_Clone_id Labels_Unique_id)
  from val srt dst fnd wins idem show ?thesis by blast
qed

theorem mergeSeriesAndSampleLabels_spec_witness:
  "sorted (map Name [\<lparr>Name = ''__name__'', Value = ''cpu''\<rparr>, \<lparr>Name = ''service_name'', Value = ''svc''\<rparr>])
   \<and> distinct (map Name [\<lparr>Name = ''__name__'', Value = ''cpu''\<rparr>, \<lparr>Name = ''service_name'', Value = ''svc''\<rparr>])
   \<and> list_all (labelInRange \<lparr>StringTable = ['''', ''service_name'', ''other'', ''span_id'', ''abc''], Sample = []\<rparr>)
         [\<lparr>Key = 1, Str = 2, Num = 0, NumUnit = 0\<rparr>, \<lparr>Key = 3, Str = 4, Num = 0, NumUnit = 0\<rparr>]
   \<and> mergeSeriesAndSampleLabels
        \<lparr>StringTable = ['''', ''service_name'', ''other'', ''span_id'', ''abc''], Sample = []\<rparr>
        [\<lparr>Name = ''__name__'', Value = ''cpu''\<rparr>, \<lparr>Name = ''service_name'', Value = ''svc''\<rparr>]
        [\<lparr>Key = 1, Str = 2, Num = 0, NumUnit = 0\<rparr>, \<lparr>Key = 3, Str = 4, Num = 0, NumUnit = 0\<rparr>]
       = Some [\<lparr>Name = ''__name__'', Value = ''cpu''\<rparr>, \<lparr>Name = ''service_name'', Value = ''svc''\<rparr>,
               \<lparr>Name = ''span_id'', Value = ''abc''\<rparr>]"
  using mergeSeriesAndSampleLabels_spec
    [of "[\<lparr>Name = ''__name__'', Value = ''cpu''\<rparr>, \<lparr>Name = ''service_name'', Value = ''svc''\<rparr>]"
        "[\<lparr>Key = 1, Str = 2, Num = 0, NumUnit = 0\<rparr>, \<lparr>Key = 3, Str = 4, Num = 0, NumUnit = 0\<rparr>]"
        "\<lparr>StringTable = ['''', ''service_name'', ''other'', ''span_id'', ''abc''], Sample = []\<rparr>"]
  by (simp add: mergeSeriesAndSampleLabels_def stringAt_def Labels_Clone_def sort_Stable_def
      labelInRange_def)

section \<open>Sample splitting\<close>


lemma samplesOf_append: "samplesOf (xs @ ys) = samplesOf xs + samplesOf ys"
  by (simp add: samplesOf_def)













section \<open>Shard selection\<close>

lemma addInstances_profiles: "profiles (addInstances i xs st) = profiles st"
  by (induction xs arbitrary: st) simp_all

lemma selectShards_later:
  "selectShards get i keys st = Inr st' \<Longrightarrow>
     length (profiles st') = length (profiles st)
     \<and> (\<forall>j<i. profiles st' ! j = profiles st ! j)"
proof (induction keys arbitrary: i st)
  case Nil
  then show ?case by simp
next
  case (Cons key keys)
  from Cons.prems obtain rs where rs: "get key = Inr rs" and i: "i < length (profiles st)"
    by (auto split: sum.splits if_splits)
  let ?st = "addInstances i (Instances rs)
      (st\<lparr>profiles := (profiles st)
         [i := (profiles st ! i)
            \<lparr>minSuccess := of_nat (length (Instances rs)) - MaxErrors rs,
             maxFailures := MaxErrors rs\<rparr>]\<rparr>)"
  from Cons.prems rs i have "selectShards get (Suc i) keys ?st = Inr st'"
    by simp
  from Cons.IH [OF this] show ?case
    by (simp add: addInstances_profiles)
qed

lemma selectShards_trackers:
  "selectShards get i keys st = Inr st' \<Longrightarrow> k < length keys \<Longrightarrow>
     \<exists>rs. get (keys ! k) = Inr rs
        \<and> minSuccess (profiles st' ! (i + k)) = of_nat (length (Instances rs)) - MaxErrors rs
        \<and> maxFailures (profiles st' ! (i + k)) = MaxErrors rs"
proof (induction keys arbitrary: i st k)
  case Nil
  then show ?case by simp
next
  case (Cons key keys)
  from Cons.prems(1) obtain rs where rs: "get key = Inr rs" and i: "i < length (profiles st)"
    by (auto split: sum.splits if_splits)
  let ?st = "addInstances i (Instances rs)
      (st\<lparr>profiles := (profiles st)
         [i := (profiles st ! i)
            \<lparr>minSuccess := of_nat (length (Instances rs)) - MaxErrors rs,
             maxFailures := MaxErrors rs\<rparr>]\<rparr>)"
  from Cons.prems(1) rs i have run: "selectShards get (Suc i) keys ?st = Inr st'"
    by simp
  show ?case
  proof (cases k)
    case 0
    from selectShards_later [OF run] have "profiles st' ! i = profiles ?st ! i"
      by simp
    with 0 rs i show ?thesis
      by (simp add: addInstances_profiles)
  next
    case (Suc k')
    with Cons.prems(2) have "k' < length keys"
      by simp
    from Cons.IH [OF run this] Suc show ?thesis
      by simp
  qed
qed

text \<open>
  Claim C2. When shard selection returns without error, then for every series \<open>i\<close> the
  ring returned a replication set for its token, the tracker of the series has
  \<open>minSuccess = len(Instances) - MaxErrors\<close> and \<open>maxFailures = MaxErrors\<close> of that set, and
  \<open>minSuccess + maxFailures\<close> is the number of instances of the set (in the arithmetic of
  Go's \<open>int\<close>).
\<close>

theorem selectShards_minSuccess_maxFailures:
  assumes "selectShards get 0 keys st = Inr st'" and "i < length keys"
  shows "\<exists>replicationSet. get (keys ! i) = Inr replicationSet
           \<and> minSuccess (profiles st' ! i)
               = of_nat (length (Instances replicationSet)) - MaxErrors replicationSet
           \<and> maxFailures (profiles st' ! i) = MaxErrors replicationSet
           \<and> minSuccess (profiles st' ! i) + maxFailures (profiles st' ! i)
               = of_nat (length (Instances replicationSet))"
proof -
  from selectShards_trackers [OF assms] obtain rs where
    "get (keys ! i) = Inr rs"
    "minSuccess (profiles st' ! i) = of_nat (length (Instances rs)) - MaxErrors rs"
    "maxFailures (profiles st' ! i) = MaxErrors rs"
    by auto
  then show ?thesis by simp
qed

theorem selectShards_minSuccess_maxFailures_witness:
  "selectShards (\<lambda>key. Inr \<lparr>Instances = [\<lparr>Addr = ''a''\<rparr>, \<lparr>Addr = ''b''\<rparr>, \<lparr>Addr = ''c''\<rparr>],
                               MaxErrors = 1\<rparr>) 0 [7]
      \<lparr>profiles = [\<lparr>profile = \<lparr>Labels = [], Samples = []\<rparr>, minSuccess = 0, maxFailures = 0,
                    succeeded = 0, failed = 0\<rparr>],
       samplesByIngester = [], ingesterDescs = Map.empty\<rparr>
     = Inr \<lparr>profiles = [\<lparr>profile = \<lparr>Labels = [], Samples = []\<rparr>, minSuccess = 2,
                         maxFailures = 1, succeeded = 0, failed = 0\<rparr>],
            samplesByIngester = [(''a'', [0]), (''b'', [0]), (''c'', [0])],
            ingesterDescs = [''a'' \<mapsto> \<lparr>Addr = ''a''\<rparr>, ''b'' \<mapsto> \<lparr>Addr = ''b''\<rparr>,
                             ''c'' \<mapsto> \<lparr>Addr = ''c''\<rparr>]\<rparr>
   \<and> (2 :: go_int) + 1 = of_nat (length [\<lparr>Addr = ''a''\<rparr>, \<lparr>Addr = ''b''\<rparr>, \<lparr>Addr = ''c''\<rparr>])"
proof -
  let ?get = "\<lambda>key :: uint32. Inr \<lparr>Instances = [\<lparr>Addr = ''a''\<rparr>, \<lparr>Addr = ''b''\<rparr>, \<lparr>Addr = ''c''\<rparr>],
                               MaxErrors = 1\<rparr> :: error + ReplicationSet"
  have run: "selectShards ?get 0 [7]
      \<lparr>profiles = [\<lparr>profile = \<lparr>Labels = [], Samples = []\<rparr>, minSuccess = 0, maxFailures = 0,
                    succeeded = 0, failed = 0\<rparr>],
       samplesByIngester = [], ingesterDescs = Map.empty\<rparr>
     = Inr \<lparr>profiles = [\<lparr>profile = \<lparr>Labels = [], Samples = []\<rparr>, minSuccess = 2,
                         maxFailures = 1, succeeded = 0, failed = 0\<rparr>],
            samplesByIngester = [(''a'', [0]), (''b'', [0]), (''c'', [0])],
            ingesterDescs = [''a'' \<mapsto> \<lparr>Addr = ''a''\<rparr>, ''b'' \<mapsto> \<lparr>Addr = ''b''\<rparr>,
                             ''c'' \<mapsto> \<lparr>Addr = ''c''\<rparr>]\<rparr>"
    by simp
  from selectShards_minSuccess_maxFailures [OF run, of 0] run show ?thesis
    by simp
qed

section \<open>The rate limit gate\<close>






section \<open>Quorum of the fan-out\<close>

lemma sum_list_map_update:
  "g < length xs \<Longrightarrow>
     sum_list (map f (xs[g := x])) + f (xs ! g) = sum_list (map f xs) + (f x :: nat)"
proof (induction xs arbitrary: g)
  case Nil
  then show ?case by simp
next
  case (Cons y ys)
  show ?case
  proof (cases g)
    case 0
    then show ?thesis by simp
  next
    case (Suc g')
    with Cons.prems have "g' < length ys" by simp
    from Cons.IH [OF this] Suc show ?thesis by simp
  qed
qed

lemma map_update_same: "(map f xs)[t := f (xs ! t)] = map f xs"
  by (metis list_update_id map_update)

lemma setPc_simps [simp]:
  "w_trackers (setPc g p w) = w_trackers w"
  "w_tracker (setPc g p w) = w_tracker w"
  "caller (setPc g p w) = caller w"
  "goroutines (setPc g p w) = (goroutines w)[g := (goroutines w ! g)\<lparr>pc := p\<rparr>]"
  by (simp_all add: setPc_def)

lemma failed_Inc_simps [simp]:
  "w_tracker (failed_Inc t w) = w_tracker w"
  "caller (failed_Inc t w) = caller w"
  "goroutines (failed_Inc t w) = goroutines w"
  "map minSuccess (w_trackers (failed_Inc t w)) = map minSuccess (w_trackers w)"
  "map succeeded (w_trackers (failed_Inc t w)) = map succeeded (w_trackers w)"
  by (simp_all add: failed_Inc_def map_update map_update_same)

lemma succeeded_Inc_simps [simp]:
  "w_tracker (succeeded_Inc t w) = w_tracker w"
  "caller (succeeded_Inc t w) = caller w"
  "goroutines (succeeded_Inc t w) = goroutines w"
  "map minSuccess (w_trackers (succeeded_Inc t w)) = map minSuccess (w_trackers w)"
  by (simp_all add: succeeded_Inc_def map_update map_update_same)

lemma tracker_update_simps [simp]:
  "w_trackers (samplesFailed_Inc w) = w_trackers w"
  "goroutines (samplesFailed_Inc w) = goroutines w"
  "caller (samplesFailed_Inc w) = caller w"
  "samplesPending (w_tracker (samplesFailed_Inc w)) = samplesPending (w_tracker w)"
  "done_chan (w_tracker (samplesFailed_Inc w)) = done_chan (w_tracker w)"
  "w_trackers (samplesPending_Dec w) = w_trackers w"
  "goroutines (samplesPending_Dec w) = goroutines w"
  "caller (samplesPending_Dec w) = caller w"
  "samplesPending (w_tracker (samplesPending_Dec w)) = samplesPending (w_tracker w) - 1"
  "done_chan (w_tracker (samplesPending_Dec w)) = done_chan (w_tracker w)"
  "w_trackers (send_err e w) = w_trackers w"
  "goroutines (send_err e w) = goroutines w"
  "caller (send_err e w) = caller w"
  "samplesPending (w_tracker (send_err e w)) = samplesPending (w_tracker w)"
  "done_chan (w_tracker (send_err e w)) = done_chan (w_tracker w)"
  "w_trackers (send_done w) = w_trackers w"
  "goroutines (send_done w) = goroutines w"
  "caller (send_done w) = caller w"
  "samplesPending (w_tracker (send_done w)) = samplesPending (w_tracker w)"
  "done_chan (w_tracker (send_done w)) = Suc (done_chan (w_tracker w))"
  by (simp_all add: samplesFailed_Inc_def samplesPending_Dec_def send_err_def send_done_def)

lemma recorded_setPc:
  assumes "g < length (goroutines w)" and "goroutines w' = goroutines w"
  shows "recorded (setPc g p w') k + credit k (goroutines w ! g)
           = recorded w k + credit k ((goroutines w ! g)\<lparr>pc := p\<rparr>)"
  using assms sum_list_map_update [of g "goroutines w" "credit k" "(goroutines w ! g)\<lparr>pc := p\<rparr>"]
  by (simp add: recorded_def)

lemma deciding_setPc:
  assumes "g < length (goroutines w)" and "goroutines w' = goroutines w"
  shows "deciding (setPc g p w') + (if isDecPending (pc (goroutines w ! g)) then 1 else 0)
           = deciding w + (if isDecPending p then 1 else 0)"
  using assms
    sum_list_map_update [of g "goroutines w" "\<lambda>g. if isDecPending (pc g) then 1 else 0"
      "(goroutines w ! g)\<lparr>pc := p\<rparr>"]
  by (simp add: deciding_def)

lemma profileTrackers_setPc:
  assumes "goroutines w' = goroutines w"
  shows "map profileTrackers (goroutines (setPc g p w')) = map profileTrackers (goroutines w)"
  using assms by (simp add: map_update map_update_same)

lemma inv_lengths:
  assumes "fanout_inv dsp w"
  shows "length (w_trackers w) = length (trackers dsp)"
    and "length (goroutines w) = length (tasks dsp)"
proof -
  from assms have "map minSuccess (w_trackers w) = map minSuccess (trackers dsp)"
    by (simp add: fanout_inv_def)
  then show "length (w_trackers w) = length (trackers dsp)"
    by (rule map_eq_imp_length_eq)
  from assms have "map profileTrackers (goroutines w) = map snd (tasks dsp)"
    by (simp add: fanout_inv_def)
  then show "length (goroutines w) = length (tasks dsp)"
    by (rule map_eq_imp_length_eq)
qed

lemma inv_frame:
  assumes "fanout_inv dsp w"
    and "map minSuccess (w_trackers w') = map minSuccess (w_trackers w)"
    and "map succeeded (w_trackers w') = map succeeded (w_trackers w)"
    and "map profileTrackers (goroutines w') = map profileTrackers (goroutines w)"
    and "\<forall>k. recorded w' k = recorded w k"
    and "samplesPending (w_tracker w') = samplesPending (w_tracker w)"
    and "deciding w' = deciding w"
    and "announced w' \<longrightarrow> announced w"
  shows "fanout_inv dsp w'"
proof -
  have len: "length (w_trackers w) = length (trackers dsp)"
    by (rule inv_lengths [OF assms(1)])
  have len': "length (w_trackers w') = length (w_trackers w)"
    using assms(2) by (rule map_eq_imp_length_eq)
  have same_hit: "hit dsp w' k = hit dsp w k" for k
    using assms(5) by (simp add: hit_def)
  then have same_hits: "hits dsp w' = hits dsp w"
    by (simp add: hits_def)
  have succ: "succeeded (w_trackers w' ! k) = succeeded (w_trackers w ! k)"
    if "k < length (trackers dsp)" for k
  proof -
    from that len len' have "k < length (w_trackers w')" "k < length (w_trackers w)"
      by simp_all
    then have "succeeded (w_trackers w' ! k) = map succeeded (w_trackers w') ! k"
      and "succeeded (w_trackers w ! k) = map succeeded (w_trackers w) ! k"
      by simp_all
    with assms(3) show ?thesis by simp
  qed
  from assms(1) have
    i1: "map minSuccess (w_trackers w) = map minSuccess (trackers dsp)"
    and i2: "map profileTrackers (goroutines w) = map snd (tasks dsp)"
    and i3: "\<forall>k<length (trackers dsp). succeeded (w_trackers w ! k) = of_nat (recorded w k)"
    and i4: "samplesPending (w_tracker w) + of_nat (card (hits dsp w))
               = of_nat (length (trackers dsp)) + of_nat (deciding w)"
    and i5: "announced w \<longrightarrow> (\<forall>k<length (trackers dsp). hit dsp w k)"
    by (simp_all add: fanout_inv_def)
  show ?thesis
    unfolding fanout_inv_def
    using i1 i2 i3 i4 i5 assms(2,4,5,6,7,8) same_hit same_hits succ
    by simp
qed

lemma announced_setPc:
  assumes "g < length (goroutines w)" and "goroutines w' = goroutines w"
    and "caller w' = caller w" and "done_chan (w_tracker w') = done_chan (w_tracker w)"
    and "\<not> isSendDone p"
  shows "announced (setPc g p w') \<longrightarrow> announced w"
proof
  assume a: "announced (setPc g p w')"
  let ?gs = "(goroutines w)[g := (goroutines w ! g)\<lparr>pc := p\<rparr>]"
  {
    assume "\<exists>x\<in>set ?gs. isSendDone (pc x)"
    then obtain x where x: "x \<in> set ?gs" "isSendDone (pc x)"
      by blast
    from x(1) have "x = (goroutines w ! g)\<lparr>pc := p\<rparr> \<or> x \<in> set (goroutines w)"
      using set_update_subset_insert [of "goroutines w" g "(goroutines w ! g)\<lparr>pc := p\<rparr>"]
      by auto
    with x(2) assms(5) have "\<exists>x\<in>set (goroutines w). isSendDone (pc x)"
      by auto
  }
  with a assms(2,3,4) show "announced w"
    by (auto simp: announced_def)
qed

lemma quiet_step:
  assumes "fanout_inv dsp w" and "g < length (goroutines w)"
    and "goroutines w' = goroutines w"
    and "map minSuccess (w_trackers w') = map minSuccess (w_trackers w)"
    and "map succeeded (w_trackers w') = map succeeded (w_trackers w)"
    and "samplesPending (w_tracker w') = samplesPending (w_tracker w)"
    and "\<forall>k. credit k ((goroutines w ! g)\<lparr>pc := p\<rparr>) = credit k (goroutines w ! g)"
    and "isDecPending p = isDecPending (pc (goroutines w ! g))"
    and "announced (setPc g p w') \<longrightarrow> announced w"
  shows "fanout_inv dsp (setPc g p w')"
proof (rule inv_frame [OF assms(1)])
  show "map minSuccess (w_trackers (setPc g p w')) = map minSuccess (w_trackers w)"
    using assms(4) by simp
  show "map succeeded (w_trackers (setPc g p w')) = map succeeded (w_trackers w)"
    using assms(5) by simp
  show "map profileTrackers (goroutines (setPc g p w')) = map profileTrackers (goroutines w)"
    by (rule profileTrackers_setPc [OF assms(3)])
  show "\<forall>k. recorded (setPc g p w') k = recorded w k"
    using recorded_setPc [OF assms(2,3), of p] assms(7) by simp
  show "samplesPending (w_tracker (setPc g p w')) = samplesPending (w_tracker w)"
    using assms(6) by simp
  show "deciding (setPc g p w') = deciding w"
    using deciding_setPc [OF assms(2,3), of p] assms(8) by simp
  show "announced (setPc g p w') \<longrightarrow> announced w"
    by (rule assms(9))
qed

lemma inv_rpc_returns:
  assumes "fanout_inv dsp w" and "g < length (goroutines w)" and "pc (goroutines w ! g) = Sending"
  shows "fanout_inv dsp (setPc g (Loop res 0) w)"
proof (rule quiet_step [OF assms(1,2)])
  show "announced (setPc g (Loop res 0) w) \<longrightarrow> announced w"
    by (intro announced_setPc [OF assms(2)]) simp_all
  show "\<forall>k. credit k ((goroutines w ! g)\<lparr>pc := Loop res 0\<rparr>) = credit k (goroutines w ! g)"
    by (simp add: credit_def assms(3))
  show "isDecPending (Loop res 0) = isDecPending (pc (goroutines w ! g))"
    by (simp add: assms(3))
qed simp_all

lemma inv_count_failure:
  assumes "fanout_inv dsp w" and "g < length (goroutines w)"
    and "pc (goroutines w ! g) = Loop (Some e) i"
    and "p = Loop (Some e) (Suc i) \<or> p = IncFailed e i"
  shows "fanout_inv dsp (setPc g p (failed_Inc t w))"
proof (rule quiet_step [OF assms(1,2)])
  show "announced (setPc g p (failed_Inc t w)) \<longrightarrow> announced w"
  proof (rule announced_setPc [OF assms(2)])
    show "\<not> isSendDone p"
      using assms(4) by auto
  qed simp_all
  show "\<forall>k. credit k ((goroutines w ! g)\<lparr>pc := p\<rparr>) = credit k (goroutines w ! g)"
    using assms(4) by (auto simp: credit_def assms(3))
  show "isDecPending p = isDecPending (pc (goroutines w ! g))"
    using assms(4) by (auto simp: assms(3))
qed simp_all

lemma inv_count_failed_sample:
  assumes "fanout_inv dsp w" and "g < length (goroutines w)"
    and "pc (goroutines w ! g) = IncFailed e i"
    and "p = SendErr e i \<or> p = Loop (Some e) (Suc i)"
  shows "fanout_inv dsp (setPc g p (samplesFailed_Inc w))"
proof (rule quiet_step [OF assms(1,2)])
  show "announced (setPc g p (samplesFailed_Inc w)) \<longrightarrow> announced w"
  proof (rule announced_setPc [OF assms(2)])
    show "\<not> isSendDone p"
      using assms(4) by auto
  qed simp_all
  show "\<forall>k. credit k ((goroutines w ! g)\<lparr>pc := p\<rparr>) = credit k (goroutines w ! g)"
    using assms(4) by (auto simp: credit_def assms(3))
  show "isDecPending p = isDecPending (pc (goroutines w ! g))"
    using assms(4) by (auto simp: assms(3))
qed simp_all

lemma inv_publish_err:
  assumes "fanout_inv dsp w" and "g < length (goroutines w)"
    and "pc (goroutines w ! g) = SendErr e i"
  shows "fanout_inv dsp (setPc g (Loop (Some e) (Suc i)) (send_err e w))"
proof (rule quiet_step [OF assms(1,2)])
  show "announced (setPc g (Loop (Some e) (Suc i)) (send_err e w)) \<longrightarrow> announced w"
    by (rule announced_setPc [OF assms(2)]) simp_all
  show "\<forall>k. credit k ((goroutines w ! g)\<lparr>pc := Loop (Some e) (Suc i)\<rparr>) = credit k (goroutines w ! g)"
    by (simp add: credit_def assms(3))
  show "isDecPending (Loop (Some e) (Suc i)) = isDecPending (pc (goroutines w ! g))"
    by (simp add: assms(3))
qed simp_all

lemma inv_publish_done:
  assumes "fanout_inv dsp w" and "g < length (goroutines w)"
    and "pc (goroutines w ! g) = SendDone i"
  shows "fanout_inv dsp (setPc g (Loop None (Suc i)) (send_done w))"
proof (rule quiet_step [OF assms(1,2)])
  have "goroutines w ! g \<in> set (goroutines w)"
    using assms(2) by simp
  with assms(3) have "\<exists>x\<in>set (goroutines w). isSendDone (pc x)"
    by (metis isSendDone.simps(1))
  then have "announced w"
    by (simp add: announced_def)
  then show "announced (setPc g (Loop None (Suc i)) (send_done w)) \<longrightarrow> announced w"
    by simp
  show "\<forall>k. credit k ((goroutines w ! g)\<lparr>pc := Loop None (Suc i)\<rparr>) = credit k (goroutines w ! g)"
    by (simp add: credit_def assms(3))
  show "isDecPending (Loop None (Suc i)) = isDecPending (pc (goroutines w ! g))"
    by (simp add: assms(3))
qed simp_all

lemma inv_select_err:
  assumes "fanout_inv dsp w" and "caller w = Waiting"
  shows "fanout_inv dsp (w\<lparr>w_tracker := (w_tracker w)\<lparr>err_chan := rest\<rparr>, caller := Returned (Some e)\<rparr>)"
  by (rule inv_frame [OF assms(1)])
     (simp_all add: recorded_def deciding_def announced_def)

lemma inv_select_ctx_done:
  assumes "fanout_inv dsp w" and "caller w = Waiting"
  shows "fanout_inv dsp (w\<lparr>caller := Returned (Some e)\<rparr>)"
  by (rule inv_frame [OF assms(1)])
     (simp_all add: recorded_def deciding_def announced_def)

lemma inv_select_done:
  assumes "fanout_inv dsp w" and "done_chan (w_tracker w) = Suc m"
  shows "fanout_inv dsp (w\<lparr>w_tracker := (w_tracker w)\<lparr>done_chan := m\<rparr>, caller := Returned None\<rparr>)"
proof (rule inv_frame [OF assms(1)])
  from assms(2) have "announced w"
    by (simp add: announced_def)
  then show "announced (w\<lparr>w_tracker := (w_tracker w)\<lparr>done_chan := m\<rparr>, caller := Returned None\<rparr>)
               \<longrightarrow> announced w"
    by simp
qed (simp_all add: recorded_def deciding_def)

lemma wellformed_parts:
  assumes "wellformed dsp"
  shows "\<forall>samples\<in>set (map snd (tasks dsp)).
           distinct samples \<and> (\<forall>t\<in>set samples. t < length (trackers dsp))"
    and "length (trackers dsp) + length (tasks dsp) < 2 ^ 32"
    and "\<forall>p\<in>set (trackers dsp). succeeded p = 0 \<and> sint (minSuccess p) < 2 ^ 31"
    and "samplesPending (tracker dsp) = of_nat (length (trackers dsp))"
    and "done_chan (tracker dsp) = 0"
  using assms unfolding wellformed_def by blast+

lemma count_list_distinct: "distinct xs \<Longrightarrow> count_list xs k \<le> 1"
  by (induction xs) (auto simp: count_notin)

lemma sum_list_indicator:
  "sum_list (map (\<lambda>x. if P x then 1 else 0) xs) = length (filter P xs)"
  by (induction xs) simp_all

lemma credit_le:
  assumes "distinct (profileTrackers g)"
  shows "credit k g \<le> (if rpcSucceeded (pc g) \<and> k \<in> set (profileTrackers g) then 1 else 0)"
proof -
  let ?xs = "take (pos (pc g)) (profileTrackers g)"
  from assms have "distinct ?xs"
    by simp
  then have one: "count_list ?xs k \<le> 1"
    by (rule count_list_distinct)
  have "k \<notin> set (profileTrackers g) \<Longrightarrow> k \<notin> set ?xs"
    by (meson in_set_takeD)
  then have zero: "k \<notin> set (profileTrackers g) \<Longrightarrow> count_list ?xs k = 0"
    by (simp add: count_notin)
  from one zero show ?thesis
    by (simp add: credit_def)
qed

lemma goroutines_distinct:
  assumes "wellformed dsp" and "map profileTrackers (goroutines w) = map snd (tasks dsp)"
    and "g \<in> set (goroutines w)"
  shows "distinct (profileTrackers g)"
proof -
  from assms(2,3) have "profileTrackers g \<in> set (map snd (tasks dsp))"
    by (metis image_eqI set_map)
  with wellformed_parts(1) [OF assms(1)] show ?thesis
    by blast
qed

lemma recorded_le_acknowledged:
  assumes "wellformed dsp" and "map profileTrackers (goroutines w) = map snd (tasks dsp)"
  shows "recorded w k \<le> acknowledged w k"
proof -
  let ?ok = "\<lambda>g. rpcSucceeded (pc g) \<and> k \<in> set (profileTrackers g)"
  have "sum_list (map (credit k) (goroutines w))
          \<le> sum_list (map (\<lambda>g. if ?ok g then 1 else 0) (goroutines w))"
    by (rule sum_list_mono) (rule credit_le, rule goroutines_distinct [OF assms])
  also have "\<dots> = length (filter ?ok (goroutines w))"
    by (rule sum_list_indicator)
  finally show ?thesis
    by (simp add: recorded_def acknowledged_def)
qed

lemma recorded_bound:
  assumes "wellformed dsp" and "map profileTrackers (goroutines w) = map snd (tasks dsp)"
  shows "recorded w k < 2 ^ 32"
proof -
  have "recorded w k \<le> acknowledged w k"
    by (rule recorded_le_acknowledged [OF assms])
  also have "\<dots> \<le> length (goroutines w)"
    by (simp add: acknowledged_def)
  also have "\<dots> = length (tasks dsp)"
    using assms(2) by (rule map_eq_imp_length_eq)
  also have "\<dots> \<le> length (trackers dsp) + length (tasks dsp)"
    by simp
  also have "\<dots> < 2 ^ 32"
    by (rule wellformed_parts(2) [OF assms(1)])
  finally show ?thesis .
qed

lemma hits_finite: "finite (hits dsp w)"
  by (simp add: hits_def)

lemma hits_card_le: "card (hits dsp w) \<le> length (trackers dsp)"
proof -
  have "hits dsp w \<subseteq> {..<length (trackers dsp)}"
    by (auto simp: hits_def)
  then have "card (hits dsp w) \<le> card {..<length (trackers dsp)}"
    by (intro card_mono) simp_all
  then show ?thesis by simp
qed

lemma inv_start:
  assumes "wellformed dsp"
  shows "fanout_inv dsp (start dsp)"
proof -
  have gs: "map profileTrackers (goroutines (start dsp)) = map snd (tasks dsp)"
    by (simp add: start_def comp_def case_prod_unfold)
  have cr: "credit k g = 0" if "g \<in> set (goroutines (start dsp))" for k g
    using that by (auto simp: start_def credit_def)
  have rec: "recorded (start dsp) k = 0" for k
    by (simp add: recorded_def cr)
  then have nohit: "hits dsp (start dsp) = {}"
    by (simp add: hits_def hit_def)
  have "isDecPending (pc g) = False" if "g \<in> set (goroutines (start dsp))" for g
    using that by (auto simp: start_def)
  then have dec: "deciding (start dsp) = 0"
    by (simp add: deciding_def)
  have "\<not> isSendDone (pc g)" if "g \<in> set (goroutines (start dsp))" for g
    using that by (auto simp: start_def)
  then have ann: "\<not> announced (start dsp)"
    using wellformed_parts(5) [OF assms] by (auto simp: announced_def start_def)
  have "succeeded (w_trackers (start dsp) ! k) = 0" if "k < length (trackers dsp)" for k
  proof -
    from that have "trackers dsp ! k \<in> set (trackers dsp)"
      by simp
    with wellformed_parts(3) [OF assms] have "succeeded (trackers dsp ! k) = 0"
      by blast
    then show ?thesis
      by (simp add: start_def)
  qed
  then have succ: "\<forall>k<length (trackers dsp).
      succeeded (w_trackers (start dsp) ! k) = of_nat (recorded (start dsp) k)"
    by (simp add: rec)
  have "samplesPending (w_tracker (start dsp)) = of_nat (length (trackers dsp))"
    using wellformed_parts(4) [OF assms] by (simp add: start_def)
  then have pend: "samplesPending (w_tracker (start dsp)) + of_nat (card (hits dsp (start dsp)))
      = of_nat (length (trackers dsp)) + of_nat (deciding (start dsp))"
    by (simp add: nohit dec)
  have "map minSuccess (w_trackers (start dsp)) = map minSuccess (trackers dsp)"
    by (simp add: start_def)
  with gs succ pend ann show ?thesis
    unfolding fanout_inv_def by blast
qed

lemma inv_parts:
  assumes "fanout_inv dsp w"
  shows "map minSuccess (w_trackers w) = map minSuccess (trackers dsp)"
    and "map profileTrackers (goroutines w) = map snd (tasks dsp)"
    and "\<forall>k<length (trackers dsp). succeeded (w_trackers w ! k) = of_nat (recorded w k)"
    and "samplesPending (w_tracker w) + of_nat (card (hits dsp w))
           = of_nat (length (trackers dsp)) + of_nat (deciding w)"
    and "announced w \<longrightarrow> (\<forall>k<length (trackers dsp). hit dsp w k)"
  using assms unfolding fanout_inv_def by blast+

lemma deciding_le: "deciding w \<le> length (goroutines w)"
proof -
  have "deciding w = length (filter (\<lambda>g. isDecPending (pc g)) (goroutines w))"
    unfolding deciding_def by (rule sum_list_indicator)
  then show ?thesis by simp
qed

lemma credit_advance:
  assumes "pc g = Loop None i" and "i < length (profileTrackers g)"
    and "rpcSucceeded p" and "pos p = Suc i"
  shows "credit k (g\<lparr>pc := p\<rparr>) = credit k g + (if profileTrackers g ! i = k then 1 else 0)"
  using assms by (simp add: credit_def take_Suc_conv_app_nth)

lemma inv_count_success:
  assumes wf: "wellformed dsp" and fanout_inv: "fanout_inv dsp w" and g: "g < length (goroutines w)"
    and pcg: "pc (goroutines w ! g) = Loop None i"
    and i: "i < length (profileTrackers (goroutines w ! g))"
    and t: "t = profileTrackers (goroutines w ! g) ! i"
    and tn: "t < length (w_trackers w)"
    and p: "p = (if succeeded (w_trackers w ! t) + 1 \<noteq> ucast (minSuccess (w_trackers w ! t))
                 then Loop None (Suc i) else DecPending i)"
  shows "fanout_inv dsp (setPc g p (succeeded_Inc t w))"
proof -
  let ?w' = "setPc g p (succeeded_Inc t w)"
  let ?n = "length (trackers dsp)"
  note parts = inv_parts [OF fanout_inv]
  have len: "length (w_trackers w) = ?n"
    by (rule inv_lengths(1) [OF fanout_inv])
  from p have ok: "rpcSucceeded p" and ps: "pos p = Suc i" and nsd: "\<not> isSendDone p"
    by (simp_all split: if_splits)
  have static1: "map minSuccess (w_trackers ?w') = map minSuccess (trackers dsp)"
    using parts(1) by simp
  have static2: "map profileTrackers (goroutines ?w') = map snd (tasks dsp)"
    using parts(2) profileTrackers_setPc [of "succeeded_Inc t w" w g p] by simp
  have cr: "credit k ((goroutines w ! g)\<lparr>pc := p\<rparr>)
              = credit k (goroutines w ! g) + (if t = k then 1 else 0)" for k
    using credit_advance [OF pcg i ok ps] t by simp
  have rec: "recorded ?w' k = recorded w k + (if t = k then 1 else 0)" for k
    using recorded_setPc [of g w "succeeded_Inc t w" p k] g cr [of k] by simp
  have bound': "recorded ?w' k < 2 ^ 32" for k
    by (rule recorded_bound [OF wf static2])
  have succ': "succeeded (w_trackers ?w' ! k) = of_nat (recorded ?w' k)" if "k < ?n" for k
  proof (cases "k = t")
    case True
    with tn have "succeeded (w_trackers ?w' ! k) = succeeded (w_trackers w ! t) + 1"
      by (simp add: succeeded_Inc_def)
    also from parts(3) that True have "\<dots> = of_nat (recorded w t) + 1"
      by simp
    finally show ?thesis
      using True by (simp add: rec)
  next
    case False
    then have "succeeded (w_trackers ?w' ! k) = succeeded (w_trackers w ! k)"
      by (simp add: succeeded_Inc_def)
    with parts(3) that False show ?thesis
      by (simp add: rec)
  qed
  have ms: "minSuccess (w_trackers w ! t) = minSuccess (trackers dsp ! t)"
  proof -
    from tn len have "t < ?n" by simp
    with tn have "minSuccess (w_trackers w ! t) = map minSuccess (w_trackers w) ! t"
      and "minSuccess (trackers dsp ! t) = map minSuccess (trackers dsp) ! t"
      by simp_all
    with parts(1) show ?thesis by simp
  qed
  have v: "succeeded (w_trackers w ! t) + 1 = of_nat (Suc (recorded w t))"
    using parts(3) tn len by simp
  have mono: "hit dsp w k \<Longrightarrow> hit dsp ?w' k" for k
    unfolding hit_def using rec [of k] by (metis le_add1 le_trans)
  have other: "hit dsp ?w' k = hit dsp w k" if "k \<noteq> t" for k
    using that rec [of k] by (simp add: hit_def)
  have ann: "announced ?w' \<longrightarrow> announced w"
    by (rule announced_setPc [OF g _ _ _ nsd]) simp_all
  have all_hit: "announced ?w' \<longrightarrow> (\<forall>k<?n. hit dsp ?w' k)"
    using ann parts(5) mono by blast
  show ?thesis
  proof (cases "succeeded (w_trackers w ! t) + 1 = ucast (minSuccess (w_trackers w ! t))")
    case False
    with p have pl: "p = Loop None (Suc i)"
      by simp
    have same_t: "hit dsp ?w' t = hit dsp w t"
    proof
      assume "hit dsp ?w' t"
      then obtain m where m: "0 < m" "m \<le> Suc (recorded w t)"
        "(of_nat m :: int32) = ucast (minSuccess (trackers dsp ! t))"
        unfolding hit_def using rec [of t] by auto
      from m(3) False ms v have "m \<noteq> Suc (recorded w t)"
        by auto
      with m(2) have "m \<le> recorded w t"
        by simp
      with m(1,3) show "hit dsp w t"
        unfolding hit_def by blast
    next
      assume "hit dsp w t"
      then show "hit dsp ?w' t" by (rule mono)
    qed
    have "hit dsp ?w' k = hit dsp w k" for k
      using same_t other by (cases "k = t") simp_all
    then have hs: "hits dsp ?w' = hits dsp w"
      by (simp add: hits_def)
    have dec: "deciding ?w' = deciding w"
      using deciding_setPc [of g w "succeeded_Inc t w" p] g pcg pl by simp
    from parts(4) hs dec have pend: "samplesPending (w_tracker ?w') + of_nat (card (hits dsp ?w'))
        = of_nat ?n + of_nat (deciding ?w')"
      by simp
    from static1 static2 succ' pend all_hit show ?thesis
      unfolding fanout_inv_def by blast
  next
    case True
    with p have pd: "p = DecPending i"
      by simp
    have new: "hit dsp ?w' t"
      unfolding hit_def using True ms v rec [of t]
      by (intro exI [of _ "Suc (recorded w t)"]) simp
    have old: "\<not> hit dsp w t"
    proof
      assume "hit dsp w t"
      then obtain m where m: "0 < m" "m \<le> recorded w t"
        "(of_nat m :: int32) = ucast (minSuccess (trackers dsp ! t))"
        unfolding hit_def by blast
      from bound' [of t] rec [of t] have b1: "Suc (recorded w t) < 2 ^ 32"
        by simp
      with m(2) have b2: "m < 2 ^ 32"
        by simp
      from m(3) True ms v have "(of_nat m :: int32) = of_nat (Suc (recorded w t))"
        by simp
      with b2 b1 have "m = Suc (recorded w t)"
        by (rule of_nat_32_inj)
      with m(2) show False by simp
    qed
    from tn len have tn': "t < ?n" by simp
    have "hit dsp ?w' k = (k = t \<or> hit dsp w k)" for k
      using new other [of k] by (cases "k = t") simp_all
    with tn' have "hits dsp ?w' = insert t (hits dsp w)"
      by (auto simp: hits_def)
    moreover have "t \<notin> hits dsp w"
      using old by (simp add: hits_def)
    ultimately have hs: "card (hits dsp ?w') = Suc (card (hits dsp w))"
      using hits_finite [of dsp w] by simp
    have dec: "deciding ?w' = Suc (deciding w)"
      using deciding_setPc [of g w "succeeded_Inc t w" p] g pcg pd by simp
    from parts(4) have pend: "samplesPending (w_tracker ?w') + of_nat (card (hits dsp ?w'))
        = of_nat ?n + of_nat (deciding ?w')"
      by (simp add: hs dec)
    from static1 static2 succ' pend all_hit show ?thesis
      unfolding fanout_inv_def by blast
  qed
qed

lemma inv_count_done_sample:
  assumes wf: "wellformed dsp" and fanout_inv: "fanout_inv dsp w" and g: "g < length (goroutines w)"
    and pcg: "pc (goroutines w ! g) = DecPending i"
    and p: "p = (if samplesPending (w_tracker w) - 1 = 0 then SendDone i else Loop None (Suc i))"
  shows "fanout_inv dsp (setPc g p (samplesPending_Dec w))"
proof -
  let ?w' = "setPc g p (samplesPending_Dec w)"
  let ?n = "length (trackers dsp)"
  note parts = inv_parts [OF fanout_inv]
  from p have ok: "rpcSucceeded p" and ps: "pos p = Suc i" and nd: "\<not> isDecPending p"
    by (simp_all split: if_splits)
  have static1: "map minSuccess (w_trackers ?w') = map minSuccess (trackers dsp)"
    using parts(1) by simp
  have static2: "map profileTrackers (goroutines ?w') = map snd (tasks dsp)"
    using parts(2) profileTrackers_setPc [of "samplesPending_Dec w" w g p] by simp
  have "credit k ((goroutines w ! g)\<lparr>pc := p\<rparr>) = credit k (goroutines w ! g)" for k
    using ok ps pcg by (simp add: credit_def)
  then have rec: "recorded ?w' k = recorded w k" for k
    using recorded_setPc [of g w "samplesPending_Dec w" p k] g by simp
  then have same_hit: "hit dsp ?w' k = hit dsp w k" for k
    by (simp add: hit_def)
  then have hs: "hits dsp ?w' = hits dsp w"
    by (simp add: hits_def)
  have succ': "\<forall>k<?n. succeeded (w_trackers ?w' ! k) = of_nat (recorded ?w' k)"
    using parts(3) by (simp add: rec)
  have dec: "Suc (deciding ?w') = deciding w"
    using deciding_setPc [of g w "samplesPending_Dec w" p] g pcg nd by simp
  from parts(4) have "samplesPending (w_tracker w) + of_nat (card (hits dsp w))
      = of_nat ?n + of_nat (Suc (deciding ?w'))"
    by (simp only: dec)
  then have pend: "samplesPending (w_tracker ?w') + of_nat (card (hits dsp ?w'))
      = of_nat ?n + of_nat (deciding ?w')"
    by (simp add: hs algebra_simps)
  have all_hit: "announced ?w' \<longrightarrow> (\<forall>k<?n. hit dsp ?w' k)"
  proof (cases "samplesPending (w_tracker w) - 1 = 0")
    case False
    with p have "\<not> isSendDone p"
      by simp
    then have "announced ?w' \<longrightarrow> announced w"
      by (intro announced_setPc [OF g]) simp_all
    with parts(5) same_hit show ?thesis
      by simp
  next
    case True
    with pend have e: "(of_nat (card (hits dsp w)) :: int32) = of_nat (?n + deciding ?w')"
      by (simp add: hs)
    have b1: "card (hits dsp w) < 2 ^ 32"
      using hits_card_le [of dsp w] wellformed_parts(2) [OF wf] by simp
    have b2: "?n + deciding ?w' < 2 ^ 32"
    proof -
      have "deciding ?w' \<le> deciding w"
        using dec by simp
      also have "\<dots> \<le> length (goroutines w)"
        by (rule deciding_le)
      also have "\<dots> = length (tasks dsp)"
        by (rule inv_lengths(2) [OF fanout_inv])
      finally have "?n + deciding ?w' \<le> ?n + length (tasks dsp)"
        by simp
      with wellformed_parts(2) [OF wf] show ?thesis
        by simp
    qed
    from b1 b2 e have "card (hits dsp w) = ?n + deciding ?w'"
      by (rule of_nat_32_inj)
    with hits_card_le [of dsp w] have full: "card (hits dsp w) = card {..<?n}"
      by simp
    have "hits dsp w \<subseteq> {..<?n}"
      by (auto simp: hits_def)
    with full have "hits dsp w = {..<?n}"
      by (intro card_subset_eq) simp_all
    then have "\<forall>k<?n. hit dsp w k"
      by (auto simp: hits_def)
    with same_hit show ?thesis
      by simp
  qed
  from static1 static2 succ' pend all_hit show ?thesis
    unfolding fanout_inv_def by blast
qed

lemma inv_step:
  assumes "wellformed dsp" and "fanout_inv dsp w" and "step w w'"
  shows "fanout_inv dsp w'"
  using assms(3)
proof cases
  case (rpc_returns g res)
  with assms(2) show ?thesis by (simp add: inv_rpc_returns)
next
  case (count_failure g e i t)
  with assms(2) show ?thesis by (simp add: inv_count_failure)
next
  case (count_failed_sample g e i)
  with assms(2) show ?thesis by (simp add: inv_count_failed_sample)
next
  case (publish_err g e i)
  with assms(2) show ?thesis by (simp add: inv_publish_err)
next
  case (count_success g i t)
  with assms(1,2) show ?thesis by (simp add: inv_count_success)
next
  case (count_done_sample g i)
  with assms(1,2) show ?thesis by (simp add: inv_count_done_sample)
next
  case (publish_done g i)
  with assms(2) show ?thesis by (simp add: inv_publish_done)
next
  case (select_err e rest)
  with assms(2) show ?thesis by (simp add: inv_select_err)
next
  case (select_done m)
  with assms(2) show ?thesis by (simp add: inv_select_done)
next
  case select_ctx_done
  with assms(2) show ?thesis by (simp add: inv_select_ctx_done)
qed

lemma inv_reachable:
  assumes "wellformed dsp" and "step\<^sup>*\<^sup>* (start dsp) w"
  shows "fanout_inv dsp w"
  using assms(2)
proof (induction rule: rtranclp_induct)
  case base
  show ?case by (rule inv_start [OF assms(1)])
next
  case (step y z)
  from assms(1) step.IH step.hyps(2) show ?case by (rule inv_step)
qed

text \<open>
  Claim C1. In every state that the goroutines and the \<open>select\<close> can reach from a
  well-formed dispatch, if \<open>PushParsed\<close> has returned success (it received from the
  \<open>done\<close> channel), then every series of the request has at least \<open>minSuccess\<close>
  successful replica acknowledgements, \<open>minSuccess\<close> being the value in the tracker of the
  series.
\<close>

theorem success_needs_quorum:
  assumes "wellformed dsp" and "step\<^sup>*\<^sup>* (start dsp) w" and "caller w = Returned None"
    and "k < length (trackers dsp)"
  shows "sint (minSuccess (trackers dsp ! k)) \<le> int (acknowledged w k)"
proof (cases "0 < sint (minSuccess (trackers dsp ! k))")
  case False
  then show ?thesis by simp
next
  case True
  have fanout_inv: "fanout_inv dsp w"
    by (rule inv_reachable [OF assms(1,2)])
  note parts = inv_parts [OF fanout_inv]
  from assms(3) have "announced w"
    by (simp add: announced_def)
  with parts(5) assms(4) have "hit dsp w k"
    by simp
  then obtain m where m: "0 < m" "m \<le> recorded w k"
    "(of_nat m :: int32) = ucast (minSuccess (trackers dsp ! k))"
    unfolding hit_def by blast
  from assms(4) have "trackers dsp ! k \<in> set (trackers dsp)"
    by simp
  with wellformed_parts(3) [OF assms(1)] have small: "sint (minSuccess (trackers dsp ! k)) < 2 ^ 31"
    by blast
  from True have nonneg: "0 \<le> sint (minSuccess (trackers dsp ! k))"
    by simp
  let ?ms = "nat (sint (minSuccess (trackers dsp ! k)))"
  from int32_of_small_int [OF nonneg] m(3)
  have eq: "(of_nat m :: int32) = of_nat ?ms"
    by simp
  have b1: "m < 2 ^ 32"
    using m(2) recorded_bound [OF assms(1) parts(2), of k] by simp
  have "(2 :: int) ^ 31 \<le> 2 ^ 32"
    by (rule power_increasing) simp_all
  with small have "sint (minSuccess (trackers dsp ! k)) < 2 ^ 32"
    by (rule order_less_le_trans)
  with nonneg have b2: "?ms < 2 ^ 32"
    by (simp add: nat_less_iff)
  from b1 b2 eq have "m = ?ms"
    by (rule of_nat_32_inj)
  with m(2) have "?ms \<le> recorded w k"
    by simp
  also have "\<dots> \<le> acknowledged w k"
    by (rule recorded_le_acknowledged [OF assms(1) parts(2)])
  finally show ?thesis
    using nonneg by simp
qed

lemma quorumWorld_start: "start quorumDispatch = quorumWorld 0 1 0 Sending Sending Waiting"
  by (simp add: start_def quorumDispatch_def quorumWorld_def)

lemma quorumWorld_run:
  "step\<^sup>*\<^sup>* (quorumWorld 0 1 0 Sending Sending Waiting)
             (quorumWorld 2 0 0 (Loop None 1) (Loop None 1) (Returned None))"
proof -
  have s1: "step (quorumWorld 0 1 0 Sending Sending Waiting)
                 (quorumWorld 0 1 0 (Loop None 0) Sending Waiting)"
    using step.rpc_returns [of 0 "quorumWorld 0 1 0 Sending Sending Waiting" None]
    by (simp add: quorumWorld_def setPc_def)
  have s2: "step (quorumWorld 0 1 0 (Loop None 0) Sending Waiting)
                 (quorumWorld 1 1 0 (Loop None 1) Sending Waiting)"
    using step.count_success [of 0 "quorumWorld 0 1 0 (Loop None 0) Sending Waiting" 0 0]
    by (simp add: quorumWorld_def setPc_def succeeded_Inc_def)
  have s3: "step (quorumWorld 1 1 0 (Loop None 1) Sending Waiting)
                 (quorumWorld 1 1 0 (Loop None 1) (Loop None 0) Waiting)"
    using step.rpc_returns [of 1 "quorumWorld 1 1 0 (Loop None 1) Sending Waiting" None]
    by (simp add: quorumWorld_def setPc_def)
  have s4: "step (quorumWorld 1 1 0 (Loop None 1) (Loop None 0) Waiting)
                 (quorumWorld 2 1 0 (Loop None 1) (DecPending 0) Waiting)"
    using step.count_success [of 1 "quorumWorld 1 1 0 (Loop None 1) (Loop None 0) Waiting" 0 0]
    by (simp add: quorumWorld_def setPc_def succeeded_Inc_def)
  have s5: "step (quorumWorld 2 1 0 (Loop None 1) (DecPending 0) Waiting)
                 (quorumWorld 2 0 0 (Loop None 1) (SendDone 0) Waiting)"
    using step.count_done_sample [of 1 "quorumWorld 2 1 0 (Loop None 1) (DecPending 0) Waiting" 0]
    by (simp add: quorumWorld_def setPc_def samplesPending_Dec_def)
  have s6: "step (quorumWorld 2 0 0 (Loop None 1) (SendDone 0) Waiting)
                 (quorumWorld 2 0 1 (Loop None 1) (Loop None 1) Waiting)"
    using step.publish_done [of 1 "quorumWorld 2 0 0 (Loop None 1) (SendDone 0) Waiting" 0]
    by (simp add: quorumWorld_def setPc_def send_done_def)
  have s7: "step (quorumWorld 2 0 1 (Loop None 1) (Loop None 1) Waiting)
                 (quorumWorld 2 0 0 (Loop None 1) (Loop None 1) (Returned None))"
    using step.select_done [of "quorumWorld 2 0 1 (Loop None 1) (Loop None 1) Waiting" 0]
    by (simp add: quorumWorld_def)
  from s1 s2 s3 s4 s5 s6 s7 show ?thesis
    by (meson rtranclp.rtrancl_into_rtrancl rtranclp.rtrancl_refl)
qed

lemma quorumDispatch_wellformed: "wellformed quorumDispatch"
  by (simp add: wellformed_def quorumDispatch_def)

theorem success_needs_quorum_witness:
  "wellformed quorumDispatch
   \<and> step\<^sup>*\<^sup>* (start quorumDispatch) (quorumWorld 2 0 0 (Loop None 1) (Loop None 1) (Returned None))
   \<and> caller (quorumWorld 2 0 0 (Loop None 1) (Loop None 1) (Returned None)) = Returned None
   \<and> (0 :: nat) < length (trackers quorumDispatch)
   \<and> sint (minSuccess (trackers quorumDispatch ! 0)) = 2
   \<and> acknowledged (quorumWorld 2 0 0 (Loop None 1) (Loop None 1) (Returned None)) 0 = 2"
proof -
  let ?w = "quorumWorld 2 0 0 (Loop None 1) (Loop None 1) (Returned None)"
  have run: "step\<^sup>*\<^sup>* (start quorumDispatch) ?w"
    using quorumWorld_run by (simp add: quorumWorld_start)
  have ret: "caller ?w = Returned None"
    by (simp add: quorumWorld_def)
  have k: "(0 :: nat) < length (trackers quorumDispatch)"
    by (simp add: quorumDispatch_def)
  have ms: "sint (minSuccess (trackers quorumDispatch ! 0)) = 2"
    by (simp add: quorumDispatch_def)
  have ack: "acknowledged ?w 0 = 2"
    by (simp add: acknowledged_def quorumWorld_def)
  from success_needs_quorum [OF quorumDispatch_wellformed run ret k]
    quorumDispatch_wellformed run ret k ms ack
  show ?thesis by simp
qed

section \<open>The dispatch built by PushParsed\<close>

text \<open>
  The quorum property above is stated for a \<open>wellformed\<close> dispatch. Every dispatch that
  \<open>PushParsed\<close> hands to its goroutines is one, provided the ring answers with replication
  sets of distinct addresses, fewer than \<open>2 ^ 31\<close> instances and a non-negative \<open>MaxErrors\<close>,
  and the request has fewer than \<open>2 ^ 32\<close> series and ingesters together: the trackers
  come from the \<open>WriteTo\<close> loop with their counters at zero, the shard selection loop
  visits index \<open>i\<close> once and hands it to each address of its replication set once, and
  \<open>samplesPending\<close> is initialised to the number of trackers.
\<close>

lemma tokenize_length: "tokenize d tenant ps = Inr keys \<Longrightarrow> length keys = length ps"
  by (induction ps arbitrary: keys) (auto split: option.splits sum.splits)

lemma writeSeries_fresh:
  "writeSeries d n ps = Inr pts \<Longrightarrow>
     length pts = length ps \<and> (\<forall>p\<in>set pts. succeeded p = 0 \<and> failed p = 0)"
  by (induction ps arbitrary: n pts) (auto split: sum.splits prod.splits)

lemma selectShards_succeeded:
  "selectShards get i keys st = Inr st' \<Longrightarrow>
     map succeeded (profiles st') = map succeeded (profiles st)"
proof (induction keys arbitrary: i st)
  case Nil
  then show ?case by simp
next
  case (Cons key keys)
  from Cons.prems obtain rs where rs: "get key = Inr rs" and i: "i < length (profiles st)"
    by (auto split: sum.splits if_splits)
  let ?st = "addInstances i (Instances rs)
      (st\<lparr>profiles := (profiles st)
         [i := (profiles st ! i)
            \<lparr>minSuccess := of_nat (length (Instances rs)) - MaxErrors rs,
             maxFailures := MaxErrors rs\<rparr>]\<rparr>)"
  from Cons.prems rs i have run: "selectShards get (Suc i) keys ?st = Inr st'"
    by simp
  have "map succeeded (profiles ?st) = map succeeded (profiles st)"
    using i by (simp add: addInstances_profiles map_update list_update_same_conv)
  with Cons.IH [OF run] show ?case
    by simp
qed

lemma appendTracker_once:
  assumes "\<forall>(a, ps)\<in>set sbi. distinct ps \<and> (\<forall>t\<in>set ps. t \<le> i) \<and> (i \<in> set ps \<longrightarrow> a \<in> D)"
    and "x \<notin> D"
  shows "\<forall>(a, ps)\<in>set (appendTracker x i sbi).
           distinct ps \<and> (\<forall>t\<in>set ps. t \<le> i) \<and> (i \<in> set ps \<longrightarrow> a \<in> insert x D)"
  using assms by (induction x i sbi rule: appendTracker.induct) (auto split: if_splits)

lemma addInstances_once:
  assumes "\<forall>(a, ps)\<in>set (samplesByIngester st).
             distinct ps \<and> (\<forall>t\<in>set ps. t \<le> i) \<and> (i \<in> set ps \<longrightarrow> a \<in> D)"
    and "distinct (map Addr xs)" and "set (map Addr xs) \<inter> D = {}"
  shows "\<forall>(a, ps)\<in>set (samplesByIngester (addInstances i xs st)).
           distinct ps \<and> (\<forall>t\<in>set ps. t \<le> i)"
  using assms
proof (induction xs arbitrary: st D)
  case Nil
  then show ?case by auto
next
  case (Cons x xs)
  let ?st = "st\<lparr>samplesByIngester := appendTracker (Addr x) i (samplesByIngester st),
            ingesterDescs := (ingesterDescs st)(Addr x \<mapsto> x)\<rparr>"
  from Cons.prems(3) have "Addr x \<notin> D"
    by auto
  from appendTracker_once [OF Cons.prems(1) this]
  have 1: "\<forall>(a, ps)\<in>set (samplesByIngester ?st).
             distinct ps \<and> (\<forall>t\<in>set ps. t \<le> i) \<and> (i \<in> set ps \<longrightarrow> a \<in> insert (Addr x) D)"
    by simp
  from Cons.prems(2) have 2: "distinct (map Addr xs)"
    by simp
  from Cons.prems(2,3) have 3: "set (map Addr xs) \<inter> insert (Addr x) D = {}"
    by auto
  from Cons.IH [OF 1 2 3] show ?case
    by simp
qed

lemma selectShards_lists:
  assumes "selectShards get i keys st = Inr st'"
    and "\<forall>key\<in>set keys. \<forall>rs. get key = Inr rs \<longrightarrow> distinct (map Addr (Instances rs))"
    and "\<forall>ps\<in>set (map snd (samplesByIngester st)). distinct ps \<and> (\<forall>t\<in>set ps. t < i)"
  shows "\<forall>ps\<in>set (map snd (samplesByIngester st')).
           distinct ps \<and> (\<forall>t\<in>set ps. t < i + length keys)"
  using assms
proof (induction keys arbitrary: i st)
  case Nil
  then show ?case by simp
next
  case (Cons key keys)
  from Cons.prems(1) obtain rs where rs: "get key = Inr rs" and i: "i < length (profiles st)"
    by (auto split: sum.splits if_splits)
  let ?base = "st\<lparr>profiles := (profiles st)
         [i := (profiles st ! i)
            \<lparr>minSuccess := of_nat (length (Instances rs)) - MaxErrors rs,
             maxFailures := MaxErrors rs\<rparr>]\<rparr>"
  let ?st = "addInstances i (Instances rs) ?base"
  from Cons.prems(1) rs i have run: "selectShards get (Suc i) keys ?st = Inr st'"
    by simp
  from Cons.prems(2) rs have d: "distinct (map Addr (Instances rs))"
    by simp
  from Cons.prems(3)
  have "\<forall>(a, ps)\<in>set (samplesByIngester ?base).
          distinct ps \<and> (\<forall>t\<in>set ps. t \<le> i) \<and> (i \<in> set ps \<longrightarrow> a \<in> {})"
    by fastforce
  from addInstances_once [OF this d]
  have "\<forall>(a, ps)\<in>set (samplesByIngester ?st). distinct ps \<and> (\<forall>t\<in>set ps. t \<le> i)"
    by simp
  then have 3: "\<forall>ps\<in>set (map snd (samplesByIngester ?st)). distinct ps \<and> (\<forall>t\<in>set ps. t < Suc i)"
    by (fastforce simp: less_Suc_eq_le)
  from Cons.prems(2) have 2: "\<forall>key\<in>set keys. \<forall>rs. get key = Inr rs \<longrightarrow> distinct (map Addr (Instances rs))"
    by simp
  from Cons.IH [OF run 2 3] show ?case
    by simp
qed

lemma minSuccess_small:
  fixes m :: go_int
  assumes "n < 2 ^ 31" and "0 \<le> sint m"
  shows "sint (of_nat n - m) < 2 ^ 31"
proof -
  from assms(1) have "int n < int (2 ^ 31)"
    by (rule iffD2 [OF of_nat_less_iff])
  then have n: "int n < 2 ^ 31"
    by simp
  have "(2 :: int) ^ 31 \<le> 2 ^ 63"
    by (rule power_increasing) simp_all
  with n have n63: "int n < 2 ^ 63"
    by (rule order_less_le_trans)
  have "- (2 ^ 63) \<le> (0 :: int)"
    by simp
  then have n0: "- (2 ^ 63) \<le> int n"
    by (rule order_trans) simp
  have "sint (of_nat n :: go_int) = signed_take_bit 63 (int n)"
    by (simp add: signed_of_nat)
  also from n0 n63 have "\<dots> = int n"
    by (rule signed_take_bit_int_eq_self)
  finally have sn: "sint (of_nat n :: go_int) = int n" .
  have "sint m < 2 ^ (LENGTH(64) - 1)"
    by (rule sint_lt)
  then have m63: "sint m < 2 ^ 63"
    by simp
  from assms(2) have up: "int n - sint m \<le> int n"
    by simp
  from up n63 have d1: "int n - sint m < 2 ^ 63"
    by (rule order_le_less_trans)
  from m63 have d0: "- (2 ^ 63) \<le> int n - sint m"
    by simp
  have "sint (of_nat n - m) = signed_take_bit (LENGTH(64) - 1) (sint (of_nat n :: go_int) - sint m)"
    by (rule sint_word_ariths)
  also have "\<dots> = signed_take_bit 63 (int n - sint m)"
    by (simp only: sn) simp
  also from d0 d1 have "\<dots> = int n - sint m"
    by (rule signed_take_bit_int_eq_self)
  finally have "sint (of_nat n - m) = int n - sint m" .
  with up n show ?thesis
    by simp
qed

lemma all_zero_of_map_eq:
  assumes "map f xs = map f ys" and "\<forall>y\<in>set ys. f y = c"
  shows "\<forall>x\<in>set xs. f x = c"
proof
  fix x assume "x \<in> set xs"
  then have "f x \<in> set (map f xs)"
    by simp
  with assms(1) have "f x \<in> set (map f ys)"
    by simp
  with assms(2) show "f x = c"
    by auto
qed

lemma PushParsed_wellformed:
  assumes run: "PushParsed d ctx req = (Inr dsp, eff)"
    and tenant: "TenantID ctx = Some tenant"
    and ring: "\<forall>key rs. ShuffleShard_Get d tenant (IngestionTenantShardSize d tenant) key = Inr rs
        \<longrightarrow> distinct (map Addr (Instances rs)) \<and> length (Instances rs) < 2 ^ 31
            \<and> 0 \<le> sint (MaxErrors rs)"
    and size: "length (trackers dsp) + length (tasks dsp) < 2 ^ 32"
  shows "wellformed dsp \<and> launched eff = tasks dsp"
proof -
  let ?get = "ShuffleShard_Get d tenant (IngestionTenantShardSize d tenant)"
  from run tenant obtain profileSeries keys pts st where
    tok: "tokenize d tenant profileSeries = Inr keys"
    and wr: "writeSeries d 0 profileSeries = Inr pts"
    and sel: "selectShards ?get 0 keys
                \<lparr>profiles = pts, samplesByIngester = [], ingesterDescs = Map.empty\<rparr> = Inr st"
    and dsp: "dsp = \<lparr>trackers = profiles st,
                     tasks = map (\<lambda>(ingester, samples). (ingesterDescs st ingester, samples))
                               (samplesByIngester st),
                     tracker = \<lparr>samplesPending = of_nat (length (profiles st)),
                                samplesFailed = 0, done_chan = 0, err_chan = []\<rparr>\<rparr>"
    and eff: "launched eff = map (\<lambda>(ingester, samples). (ingesterDescs st ingester, samples))
                               (samplesByIngester st)"
    by (auto simp: PushParsed_def Let_def
        split: sum.splits prod.splits if_splits option.splits)
  from tokenize_length [OF tok] writeSeries_fresh [OF wr]
  have len: "length keys = length pts" and fresh: "\<forall>p\<in>set pts. succeeded p = 0"
    by simp_all
  from selectShards_later [OF sel] have lst: "length (profiles st) = length pts"
    by simp
  from selectShards_succeeded [OF sel] have "map succeeded (profiles st) = map succeeded pts"
    by simp
  from all_zero_of_map_eq [OF this fresh] have zero: "\<forall>p\<in>set (profiles st). succeeded p = 0" .
  have small: "\<forall>p\<in>set (profiles st). sint (minSuccess p) < 2 ^ 31"
  proof
    fix p assume "p \<in> set (profiles st)"
    then obtain k where k: "k < length (profiles st)" and p: "p = profiles st ! k"
      by (auto simp: in_set_conv_nth)
    from k lst len have "k < length keys"
      by simp
    from selectShards_trackers [OF sel this] obtain rs where
      rs: "?get (keys ! k) = Inr rs"
      and ms: "minSuccess (profiles st ! k) = of_nat (length (Instances rs)) - MaxErrors rs"
      by auto
    from ring rs have "length (Instances rs) < 2 ^ 31" and "0 \<le> sint (MaxErrors rs)"
      by blast+
    then have "sint (of_nat (length (Instances rs)) - MaxErrors rs) < 2 ^ 31"
      by (rule minSuccess_small)
    with ms p show "sint (minSuccess p) < 2 ^ 31"
      by simp
  qed
  from ring have "\<forall>key\<in>set keys. \<forall>rs. ?get key = Inr rs \<longrightarrow> distinct (map Addr (Instances rs))"
    by blast
  from selectShards_lists [OF sel this]
  have "\<forall>ps\<in>set (map snd (samplesByIngester st)).
          distinct ps \<and> (\<forall>t\<in>set ps. t < length keys)"
    by simp
  with len lst have lists: "\<forall>ps\<in>set (map snd (samplesByIngester st)).
          distinct ps \<and> (\<forall>t\<in>set ps. t < length (profiles st))"
    by simp
  have snd: "map snd (tasks dsp) = map snd (samplesByIngester st)"
    by (simp add: dsp split_def)
  have tr: "trackers dsp = profiles st"
    and pend: "samplesPending (tracker dsp) = of_nat (length (trackers dsp))"
    and dn: "done_chan (tracker dsp) = 0"
    by (simp_all add: dsp)
  from lists zero small size have "wellformed dsp"
    unfolding wellformed_def snd tr [symmetric] pend dn
    by (simp add: tr)
  moreover from eff have "launched eff = tasks dsp"
    by (simp add: dsp)
  ultimately show ?thesis ..
qed

end
